theory Spec2Isabelle
  imports Main "HOL-Library.Word" "HOL-Library.List_Lexorder" "HOL-Library.Sublist"
    "HOL-Library.Multiset"
begin

section \<open>Strings of the host language\<close>

text \<open>
  A JavaScript string is a sequence of 16-bit code units. Offsets (\<open>match.index\<close>,
  \<open>lastIndex\<close>, \<open>slice\<close>) count code units, and the default \<open>Array.prototype.sort\<close>
  orders strings lexicographically by code unit, which is the order of
  \<open>HOL-Library.List_Lexorder\<close> on \<open>code_unit list\<close>.
\<close>

type_synonym code_unit = "16 word"

type_synonym jsstring = "code_unit list"

definition ascii :: "string \<Rightarrow> jsstring" where
  "ascii s = map of_char s"

text \<open>\<open>s.slice(a, b)\<close> for non-negative offsets; offsets beyond the end are clamped.\<close>

definition jsSlice :: "jsstring \<Rightarrow> nat \<Rightarrow> nat \<Rightarrow> jsstring" where
  "jsSlice s a b = take (b - a) (drop a s)"

text \<open>\<open>\w\<close> of a pattern without the \<open>u\<close> flag: \<open>[A-Za-z0-9_]\<close>.\<close>

definition isWordChar :: "code_unit \<Rightarrow> bool" where
  "isWordChar c \<longleftrightarrow>
     (0x61 \<le> c \<and> c \<le> 0x7A) \<or> (0x41 \<le> c \<and> c \<le> 0x5A) \<or> (0x30 \<le> c \<and> c \<le> 0x39) \<or> c = 0x5F"

subsection \<open>Case mapping\<close>

text \<open>
  The case mappings are the host's. They are written out here from the character data
  of Unicode 14.0; a letter that a later version adds is left as it is. A table gives
  the mapping by runs \<open>(lo, hi, step, target)\<close>: the code points \<open>lo\<close>, \<open>lo + step\<close>,
  ... up to \<open>hi\<close> are mapped to \<open>target\<close>, \<open>target + step\<close>, ... in this order, and a code
  point in no run is mapped to itself. Code points are integers.
\<close>

fun mapRuns :: "(int \<times> int \<times> int \<times> int) list \<Rightarrow> int \<Rightarrow> int" where
  "mapRuns [] c = c"
| "mapRuns ((lo, hi, step, target) # runs) c =
     (if lo \<le> c \<and> c \<le> hi \<and> (c - lo) mod step = 0 then target + (c - lo)
      else mapRuns runs c)"

fun inRanges :: "(int \<times> int) list \<Rightarrow> int \<Rightarrow> bool" where
  "inRanges [] c = False"
| "inRanges ((lo, hi) # ranges) c = (if lo \<le> c \<and> c \<le> hi then True else inRanges ranges c)"

text \<open>
  The case folding of a pattern with the \<open>i\<close> flag and without the \<open>u\<close> flag
  (\<open>Canonicalize\<close> in the language specification): a code unit is replaced by its
  upper-case form when that form is a single code unit, except that a code unit from
  U+0080 up is never replaced by one below U+0080. The Basic Latin letters come first;
  \<open>upperRuns\<close> lists every code unit from U+0080 up that has a single-unit upper-case
  form from U+0080 up other than itself.
\<close>

definition upperRuns :: "(int \<times> int \<times> int \<times> int) list" where
  "upperRuns =
    [
     (0xB5, 0xB5, 1, 0x39C), (0xE0, 0xF6, 1, 0xC0), (0xF8, 0xFE, 1, 0xD8),
     (0xFF, 0xFF, 1, 0x178), (0x101, 0x12F, 2, 0x100), (0x133, 0x137, 2, 0x132),
     (0x13A, 0x148, 2, 0x139), (0x14B, 0x177, 2, 0x14A), (0x17A, 0x17E, 2, 0x179),
     (0x180, 0x180, 1, 0x243), (0x183, 0x185, 2, 0x182), (0x188, 0x188, 1, 0x187),
     (0x18C, 0x18C, 1, 0x18B), (0x192, 0x192, 1, 0x191), (0x195, 0x195, 1, 0x1F6),
     (0x199, 0x199, 1, 0x198), (0x19A, 0x19A, 1, 0x23D), (0x19E, 0x19E, 1, 0x220),
     (0x1A1, 0x1A5, 2, 0x1A0), (0x1A8, 0x1A8, 1, 0x1A7), (0x1AD, 0x1AD, 1, 0x1AC),
     (0x1B0, 0x1B0, 1, 0x1AF), (0x1B4, 0x1B6, 2, 0x1B3), (0x1B9, 0x1B9, 1, 0x1B8),
     (0x1BD, 0x1BD, 1, 0x1BC), (0x1BF, 0x1BF, 1, 0x1F7), (0x1C5, 0x1C5, 1, 0x1C4),
     (0x1C6, 0x1C6, 1, 0x1C4), (0x1C8, 0x1C8, 1, 0x1C7), (0x1C9, 0x1C9, 1, 0x1C7),
     (0x1CB, 0x1CB, 1, 0x1CA), (0x1CC, 0x1CC, 1, 0x1CA), (0x1CE, 0x1DC, 2, 0x1CD),
     (0x1DD, 0x1DD, 1, 0x18E), (0x1DF, 0x1EF, 2, 0x1DE), (0x1F2, 0x1F2, 1, 0x1F1),
     (0x1F3, 0x1F3, 1, 0x1F1), (0x1F5, 0x1F5, 1, 0x1F4), (0x1F9, 0x21F, 2, 0x1F8),
     (0x223, 0x233, 2, 0x222), (0x23C, 0x23C, 1, 0x23B), (0x23F, 0x240, 1, 0x2C7E),
     (0x242, 0x242, 1, 0x241), (0x247, 0x24F, 2, 0x246), (0x250, 0x250, 1, 0x2C6F),
     (0x251, 0x251, 1, 0x2C6D), (0x252, 0x252, 1, 0x2C70), (0x253, 0x253, 1, 0x181),
     (0x254, 0x254, 1, 0x186), (0x256, 0x257, 1, 0x189), (0x259, 0x259, 1, 0x18F),
     (0x25B, 0x25B, 1, 0x190), (0x25C, 0x25C, 1, 0xA7AB), (0x260, 0x260, 1, 0x193),
     (0x261, 0x261, 1, 0xA7AC), (0x263, 0x263, 1, 0x194), (0x265, 0x265, 1, 0xA78D),
     (0x266, 0x266, 1, 0xA7AA), (0x268, 0x268, 1, 0x197), (0x269, 0x269, 1, 0x196),
     (0x26A, 0x26A, 1, 0xA7AE), (0x26B, 0x26B, 1, 0x2C62), (0x26C, 0x26C, 1, 0xA7AD),
     (0x26F, 0x26F, 1, 0x19C), (0x271, 0x271, 1, 0x2C6E), (0x272, 0x272, 1, 0x19D),
     (0x275, 0x275, 1, 0x19F), (0x27D, 0x27D, 1, 0x2C64), (0x280, 0x280, 1, 0x1A6),
     (0x282, 0x282, 1, 0xA7C5), (0x283, 0x283, 1, 0x1A9), (0x287, 0x287, 1, 0xA7B1),
     (0x288, 0x288, 1, 0x1AE), (0x289, 0x289, 1, 0x244), (0x28A, 0x28B, 1, 0x1B1),
     (0x28C, 0x28C, 1, 0x245), (0x292, 0x292, 1, 0x1B7), (0x29D, 0x29D, 1, 0xA7B2),
     (0x29E, 0x29E, 1, 0xA7B0), (0x345, 0x345, 1, 0x399), (0x371, 0x373, 2, 0x370),
     (0x377, 0x377, 1, 0x376), (0x37B, 0x37D, 1, 0x3FD), (0x3AC, 0x3AC, 1, 0x386),
     (0x3AD, 0x3AF, 1, 0x388), (0x3B1, 0x3C1, 1, 0x391), (0x3C2, 0x3C2, 1, 0x3A3),
     (0x3C3, 0x3CB, 1, 0x3A3), (0x3CC, 0x3CC, 1, 0x38C), (0x3CD, 0x3CE, 1, 0x38E),
     (0x3D0, 0x3D0, 1, 0x392), (0x3D1, 0x3D1, 1, 0x398), (0x3D5, 0x3D5, 1, 0x3A6),
     (0x3D6, 0x3D6, 1, 0x3A0), (0x3D7, 0x3D7, 1, 0x3CF), (0x3D9, 0x3EF, 2, 0x3D8),
     (0x3F0, 0x3F0, 1, 0x39A), (0x3F1, 0x3F1, 1, 0x3A1), (0x3F2, 0x3F2, 1, 0x3F9),
     (0x3F3, 0x3F3, 1, 0x37F), (0x3F5, 0x3F5, 1, 0x395), (0x3F8, 0x3F8, 1, 0x3F7),
     (0x3FB, 0x3FB, 1, 0x3FA), (0x430, 0x44F, 1, 0x410), (0x450, 0x45F, 1, 0x400),
     (0x461, 0x481, 2, 0x460), (0x48B, 0x4BF, 2, 0x48A), (0x4C2, 0x4CE, 2, 0x4C1),
     (0x4CF, 0x4CF, 1, 0x4C0), (0x4D1, 0x52F, 2, 0x4D0), (0x561, 0x586, 1, 0x531),
     (0x10D0, 0x10FA, 1, 0x1C90), (0x10FD, 0x10FF, 1, 0x1CBD), (0x13F8, 0x13FD, 1, 0x13F0),
     (0x1C80, 0x1C80, 1, 0x412), (0x1C81, 0x1C81, 1, 0x414), (0x1C82, 0x1C82, 1, 0x41E),
     (0x1C83, 0x1C84, 1, 0x421), (0x1C85, 0x1C85, 1, 0x422), (0x1C86, 0x1C86, 1, 0x42A),
     (0x1C87, 0x1C87, 1, 0x462), (0x1C88, 0x1C88, 1, 0xA64A), (0x1D79, 0x1D79, 1, 0xA77D),
     (0x1D7D, 0x1D7D, 1, 0x2C63), (0x1D8E, 0x1D8E, 1, 0xA7C6), (0x1E01, 0x1E95, 2, 0x1E00),
     (0x1E9B, 0x1E9B, 1, 0x1E60), (0x1EA1, 0x1EFF, 2, 0x1EA0), (0x1F00, 0x1F07, 1, 0x1F08),
     (0x1F10, 0x1F15, 1, 0x1F18), (0x1F20, 0x1F27, 1, 0x1F28), (0x1F30, 0x1F37, 1, 0x1F38),
     (0x1F40, 0x1F45, 1, 0x1F48), (0x1F51, 0x1F57, 2, 0x1F59), (0x1F60, 0x1F67, 1, 0x1F68),
     (0x1F70, 0x1F71, 1, 0x1FBA), (0x1F72, 0x1F75, 1, 0x1FC8), (0x1F76, 0x1F77, 1, 0x1FDA),
     (0x1F78, 0x1F79, 1, 0x1FF8), (0x1F7A, 0x1F7B, 1, 0x1FEA), (0x1F7C, 0x1F7D, 1, 0x1FFA),
     (0x1FB0, 0x1FB1, 1, 0x1FB8), (0x1FBE, 0x1FBE, 1, 0x399), (0x1FD0, 0x1FD1, 1, 0x1FD8),
     (0x1FE0, 0x1FE1, 1, 0x1FE8), (0x1FE5, 0x1FE5, 1, 0x1FEC), (0x214E, 0x214E, 1, 0x2132),
     (0x2170, 0x217F, 1, 0x2160), (0x2184, 0x2184, 1, 0x2183), (0x24D0, 0x24E9, 1, 0x24B6),
     (0x2C30, 0x2C5F, 1, 0x2C00), (0x2C61, 0x2C61, 1, 0x2C60), (0x2C65, 0x2C65, 1, 0x23A),
     (0x2C66, 0x2C66, 1, 0x23E), (0x2C68, 0x2C6C, 2, 0x2C67), (0x2C73, 0x2C73, 1, 0x2C72),
     (0x2C76, 0x2C76, 1, 0x2C75), (0x2C81, 0x2CE3, 2, 0x2C80), (0x2CEC, 0x2CEE, 2, 0x2CEB),
     (0x2CF3, 0x2CF3, 1, 0x2CF2), (0x2D00, 0x2D25, 1, 0x10A0), (0x2D27, 0x2D27, 1, 0x10C7),
     (0x2D2D, 0x2D2D, 1, 0x10CD), (0xA641, 0xA66D, 2, 0xA640), (0xA681, 0xA69B, 2, 0xA680),
     (0xA723, 0xA72F, 2, 0xA722), (0xA733, 0xA76F, 2, 0xA732), (0xA77A, 0xA77C, 2, 0xA779),
     (0xA77F, 0xA787, 2, 0xA77E), (0xA78C, 0xA78C, 1, 0xA78B), (0xA791, 0xA793, 2, 0xA790),
     (0xA794, 0xA794, 1, 0xA7C4), (0xA797, 0xA7A9, 2, 0xA796), (0xA7B5, 0xA7C3, 2, 0xA7B4),
     (0xA7C8, 0xA7CA, 2, 0xA7C7), (0xA7D1, 0xA7D1, 1, 0xA7D0), (0xA7D7, 0xA7D9, 2, 0xA7D6),
     (0xA7F6, 0xA7F6, 1, 0xA7F5), (0xAB53, 0xAB53, 1, 0xA7B3), (0xAB70, 0xABBF, 1, 0x13A0),
     (0xFF41, 0xFF5A, 1, 0xFF21)]"

definition canonicalize :: "code_unit \<Rightarrow> code_unit" where
  "canonicalize c =
     (if c < 0x80 then (if 0x61 \<le> c \<and> c \<le> 0x7A then c - 0x20 else c)
      else word_of_int (mapRuns upperRuns (uint c)))"

text \<open>
  \<open>String.prototype.toLowerCase\<close> works on code points, so a surrogate pair is one
  character. \<open>lowerRuns\<close> lists every code point from U+0080 up whose lower-case form is
  one other code point. Two characters are special: U+0130 becomes the two code points
  U+0069 U+0307, and the capital sigma U+03A3 becomes the final sigma U+03C2 when a
  cased letter stands before it and none after it, case-ignorable characters in between
  not counting, and the small sigma U+03C3 otherwise.
\<close>

definition lowerRuns :: "(int \<times> int \<times> int \<times> int) list" where
  "lowerRuns =
    [
     (0xC0, 0xD6, 1, 0xE0), (0xD8, 0xDE, 1, 0xF8), (0x100, 0x12E, 2, 0x101),
     (0x132, 0x136, 2, 0x133), (0x139, 0x147, 2, 0x13A), (0x14A, 0x176, 2, 0x14B),
     (0x178, 0x178, 1, 0xFF), (0x179, 0x17D, 2, 0x17A), (0x181, 0x181, 1, 0x253),
     (0x182, 0x184, 2, 0x183), (0x186, 0x186, 1, 0x254), (0x187, 0x187, 1, 0x188),
     (0x189, 0x18A, 1, 0x256), (0x18B, 0x18B, 1, 0x18C), (0x18E, 0x18E, 1, 0x1DD),
     (0x18F, 0x18F, 1, 0x259), (0x190, 0x190, 1, 0x25B), (0x191, 0x191, 1, 0x192),
     (0x193, 0x193, 1, 0x260), (0x194, 0x194, 1, 0x263), (0x196, 0x196, 1, 0x269),
     (0x197, 0x197, 1, 0x268), (0x198, 0x198, 1, 0x199), (0x19C, 0x19C, 1, 0x26F),
     (0x19D, 0x19D, 1, 0x272), (0x19F, 0x19F, 1, 0x275), (0x1A0, 0x1A4, 2, 0x1A1),
     (0x1A6, 0x1A6, 1, 0x280), (0x1A7, 0x1A7, 1, 0x1A8), (0x1A9, 0x1A9, 1, 0x283),
     (0x1AC, 0x1AC, 1, 0x1AD), (0x1AE, 0x1AE, 1, 0x288), (0x1AF, 0x1AF, 1, 0x1B0),
     (0x1B1, 0x1B2, 1, 0x28A), (0x1B3, 0x1B5, 2, 0x1B4), (0x1B7, 0x1B7, 1, 0x292),
     (0x1B8, 0x1B8, 1, 0x1B9), (0x1BC, 0x1BC, 1, 0x1BD), (0x1C4, 0x1C4, 1, 0x1C6),
     (0x1C5, 0x1C5, 1, 0x1C6), (0x1C7, 0x1C7, 1, 0x1C9), (0x1C8, 0x1C8, 1, 0x1C9),
     (0x1CA, 0x1CA, 1, 0x1CC), (0x1CB, 0x1DB, 2, 0x1CC), (0x1DE, 0x1EE, 2, 0x1DF),
     (0x1F1, 0x1F1, 1, 0x1F3), (0x1F2, 0x1F4, 2, 0x1F3), (0x1F6, 0x1F6, 1, 0x195),
     (0x1F7, 0x1F7, 1, 0x1BF), (0x1F8, 0x21E, 2, 0x1F9), (0x220, 0x220, 1, 0x19E),
     (0x222, 0x232, 2, 0x223), (0x23A, 0x23A, 1, 0x2C65), (0x23B, 0x23B, 1, 0x23C),
     (0x23D, 0x23D, 1, 0x19A), (0x23E, 0x23E, 1, 0x2C66), (0x241, 0x241, 1, 0x242),
     (0x243, 0x243, 1, 0x180), (0x244, 0x244, 1, 0x289), (0x245, 0x245, 1, 0x28C),
     (0x246, 0x24E, 2, 0x247), (0x370, 0x372, 2, 0x371), (0x376, 0x376, 1, 0x377),
     (0x37F, 0x37F, 1, 0x3F3), (0x386, 0x386, 1, 0x3AC), (0x388, 0x38A, 1, 0x3AD),
     (0x38C, 0x38C, 1, 0x3CC), (0x38E, 0x38F, 1, 0x3CD), (0x391, 0x3A1, 1, 0x3B1),
     (0x3A4, 0x3AB, 1, 0x3C4), (0x3CF, 0x3CF, 1, 0x3D7), (0x3D8, 0x3EE, 2, 0x3D9),
     (0x3F4, 0x3F4, 1, 0x3B8), (0x3F7, 0x3F7, 1, 0x3F8), (0x3F9, 0x3F9, 1, 0x3F2),
     (0x3FA, 0x3FA, 1, 0x3FB), (0x3FD, 0x3FF, 1, 0x37B), (0x400, 0x40F, 1, 0x450),
     (0x410, 0x42F, 1, 0x430), (0x460, 0x480, 2, 0x461), (0x48A, 0x4BE, 2, 0x48B),
     (0x4C0, 0x4C0, 1, 0x4CF), (0x4C1, 0x4CD, 2, 0x4C2), (0x4D0, 0x52E, 2, 0x4D1),
     (0x531, 0x556, 1, 0x561), (0x10A0, 0x10C5, 1, 0x2D00), (0x10C7, 0x10C7, 1, 0x2D27),
     (0x10CD, 0x10CD, 1, 0x2D2D), (0x13A0, 0x13EF, 1, 0xAB70), (0x13F0, 0x13F5, 1, 0x13F8),
     (0x1C90, 0x1CBA, 1, 0x10D0), (0x1CBD, 0x1CBF, 1, 0x10FD), (0x1E00, 0x1E94, 2, 0x1E01),
     (0x1E9E, 0x1E9E, 1, 0xDF), (0x1EA0, 0x1EFE, 2, 0x1EA1), (0x1F08, 0x1F0F, 1, 0x1F00),
     (0x1F18, 0x1F1D, 1, 0x1F10), (0x1F28, 0x1F2F, 1, 0x1F20), (0x1F38, 0x1F3F, 1, 0x1F30),
     (0x1F48, 0x1F4D, 1, 0x1F40), (0x1F59, 0x1F5F, 2, 0x1F51), (0x1F68, 0x1F6F, 1, 0x1F60),
     (0x1F88, 0x1F8F, 1, 0x1F80), (0x1F98, 0x1F9F, 1, 0x1F90), (0x1FA8, 0x1FAF, 1, 0x1FA0),
     (0x1FB8, 0x1FB9, 1, 0x1FB0), (0x1FBA, 0x1FBB, 1, 0x1F70), (0x1FBC, 0x1FBC, 1, 0x1FB3),
     (0x1FC8, 0x1FCB, 1, 0x1F72), (0x1FCC, 0x1FCC, 1, 0x1FC3), (0x1FD8, 0x1FD9, 1, 0x1FD0),
     (0x1FDA, 0x1FDB, 1, 0x1F76), (0x1FE8, 0x1FE9, 1, 0x1FE0), (0x1FEA, 0x1FEB, 1, 0x1F7A),
     (0x1FEC, 0x1FEC, 1, 0x1FE5), (0x1FF8, 0x1FF9, 1, 0x1F78), (0x1FFA, 0x1FFB, 1, 0x1F7C),
     (0x1FFC, 0x1FFC, 1, 0x1FF3), (0x2126, 0x2126, 1, 0x3C9), (0x212A, 0x212A, 1, 0x6B),
     (0x212B, 0x212B, 1, 0xE5), (0x2132, 0x2132, 1, 0x214E), (0x2160, 0x216F, 1, 0x2170),
     (0x2183, 0x2183, 1, 0x2184), (0x24B6, 0x24CF, 1, 0x24D0), (0x2C00, 0x2C2F, 1, 0x2C30),
     (0x2C60, 0x2C60, 1, 0x2C61), (0x2C62, 0x2C62, 1, 0x26B), (0x2C63, 0x2C63, 1, 0x1D7D),
     (0x2C64, 0x2C64, 1, 0x27D), (0x2C67, 0x2C6B, 2, 0x2C68), (0x2C6D, 0x2C6D, 1, 0x251),
     (0x2C6E, 0x2C6E, 1, 0x271), (0x2C6F, 0x2C6F, 1, 0x250), (0x2C70, 0x2C70, 1, 0x252),
     (0x2C72, 0x2C72, 1, 0x2C73), (0x2C75, 0x2C75, 1, 0x2C76), (0x2C7E, 0x2C7F, 1, 0x23F),
     (0x2C80, 0x2CE2, 2, 0x2C81), (0x2CEB, 0x2CED, 2, 0x2CEC), (0x2CF2, 0x2CF2, 1, 0x2CF3),
     (0xA640, 0xA66C, 2, 0xA641), (0xA680, 0xA69A, 2, 0xA681), (0xA722, 0xA72E, 2, 0xA723),
     (0xA732, 0xA76E, 2, 0xA733), (0xA779, 0xA77B, 2, 0xA77A), (0xA77D, 0xA77D, 1, 0x1D79),
     (0xA77E, 0xA786, 2, 0xA77F), (0xA78B, 0xA78B, 1, 0xA78C), (0xA78D, 0xA78D, 1, 0x265),
     (0xA790, 0xA792, 2, 0xA791), (0xA796, 0xA7A8, 2, 0xA797), (0xA7AA, 0xA7AA, 1, 0x266),
     (0xA7AB, 0xA7AB, 1, 0x25C), (0xA7AC, 0xA7AC, 1, 0x261), (0xA7AD, 0xA7AD, 1, 0x26C),
     (0xA7AE, 0xA7AE, 1, 0x26A), (0xA7B0, 0xA7B0, 1, 0x29E), (0xA7B1, 0xA7B1, 1, 0x287),
     (0xA7B2, 0xA7B2, 1, 0x29D), (0xA7B3, 0xA7B3, 1, 0xAB53), (0xA7B4, 0xA7C2, 2, 0xA7B5),
     (0xA7C4, 0xA7C4, 1, 0xA794), (0xA7C5, 0xA7C5, 1, 0x282), (0xA7C6, 0xA7C6, 1, 0x1D8E),
     (0xA7C7, 0xA7C9, 2, 0xA7C8), (0xA7D0, 0xA7D0, 1, 0xA7D1), (0xA7D6, 0xA7D8, 2, 0xA7D7),
     (0xA7F5, 0xA7F5, 1, 0xA7F6), (0xFF21, 0xFF3A, 1, 0xFF41), (0x10400, 0x10427, 1, 0x10428),
     (0x104B0, 0x104D3, 1, 0x104D8), (0x10570, 0x1057A, 1, 0x10597),
     (0x1057C, 0x1058A, 1, 0x105A3), (0x1058C, 0x10592, 1, 0x105B3),
     (0x10594, 0x10595, 1, 0x105BB), (0x10C80, 0x10CB2, 1, 0x10CC0),
     (0x118A0, 0x118BF, 1, 0x118C0), (0x16E40, 0x16E5F, 1, 0x16E60),
     (0x1E900, 0x1E921, 1, 0x1E922)]"

text \<open>The case-ignorable characters, as ranges \<open>(lo, hi)\<close>.\<close>

definition caseIgnorable :: "(int \<times> int) list" where
  "caseIgnorable =
    [
     (0x27, 0x27), (0x2E, 0x2E), (0x3A, 0x3A), (0x5E, 0x5E), (0x60, 0x60), (0xA8, 0xA8),
     (0xAD, 0xAD), (0xAF, 0xAF), (0xB4, 0xB4), (0xB7, 0xB8), (0x2B0, 0x36F), (0x374, 0x375),
     (0x37A, 0x37A), (0x384, 0x385), (0x387, 0x387), (0x483, 0x489), (0x559, 0x559),
     (0x55F, 0x55F), (0x591, 0x5BD), (0x5BF, 0x5BF), (0x5C1, 0x5C2), (0x5C4, 0x5C5),
     (0x5C7, 0x5C7), (0x5F4, 0x5F4), (0x600, 0x605), (0x610, 0x61A), (0x61C, 0x61C),
     (0x640, 0x640), (0x64B, 0x65F), (0x670, 0x670), (0x6D6, 0x6DD), (0x6DF, 0x6E8),
     (0x6EA, 0x6ED), (0x70F, 0x70F), (0x711, 0x711), (0x730, 0x74A), (0x7A6, 0x7B0),
     (0x7EB, 0x7F5), (0x7FA, 0x7FA), (0x7FD, 0x7FD), (0x816, 0x82D), (0x859, 0x85B),
     (0x888, 0x888), (0x890, 0x891), (0x898, 0x89F), (0x8C9, 0x902), (0x93A, 0x93A),
     (0x93C, 0x93C), (0x941, 0x948), (0x94D, 0x94D), (0x951, 0x957), (0x962, 0x963),
     (0x971, 0x971), (0x981, 0x981), (0x9BC, 0x9BC), (0x9C1, 0x9C4), (0x9CD, 0x9CD),
     (0x9E2, 0x9E3), (0x9FE, 0x9FE), (0xA01, 0xA02), (0xA3C, 0xA3C), (0xA41, 0xA42),
     (0xA47, 0xA48), (0xA4B, 0xA4D), (0xA51, 0xA51), (0xA70, 0xA71), (0xA75, 0xA75),
     (0xA81, 0xA82), (0xABC, 0xABC), (0xAC1, 0xAC5), (0xAC7, 0xAC8), (0xACD, 0xACD),
     (0xAE2, 0xAE3), (0xAFA, 0xAFF), (0xB01, 0xB01), (0xB3C, 0xB3C), (0xB3F, 0xB3F),
     (0xB41, 0xB44), (0xB4D, 0xB4D), (0xB55, 0xB56), (0xB62, 0xB63), (0xB82, 0xB82),
     (0xBC0, 0xBC0), (0xBCD, 0xBCD), (0xC00, 0xC00), (0xC04, 0xC04), (0xC3C, 0xC3C),
     (0xC3E, 0xC40), (0xC46, 0xC48), (0xC4A, 0xC4D), (0xC55, 0xC56), (0xC62, 0xC63),
     (0xC81, 0xC81), (0xCBC, 0xCBC), (0xCBF, 0xCBF), (0xCC6, 0xCC6), (0xCCC, 0xCCD),
     (0xCE2, 0xCE3), (0xD00, 0xD01), (0xD3B, 0xD3C), (0xD41, 0xD44), (0xD4D, 0xD4D),
     (0xD62, 0xD63), (0xD81, 0xD81), (0xDCA, 0xDCA), (0xDD2, 0xDD4), (0xDD6, 0xDD6),
     (0xE31, 0xE31), (0xE34, 0xE3A), (0xE46, 0xE4E), (0xEB1, 0xEB1), (0xEB4, 0xEBC),
     (0xEC6, 0xEC6), (0xEC8, 0xECD), (0xF18, 0xF19), (0xF35, 0xF35), (0xF37, 0xF37),
     (0xF39, 0xF39), (0xF71, 0xF7E), (0xF80, 0xF84), (0xF86, 0xF87), (0xF8D, 0xF97),
     (0xF99, 0xFBC), (0xFC6, 0xFC6), (0x102D, 0x1030), (0x1032, 0x1037), (0x1039, 0x103A),
     (0x103D, 0x103E), (0x1058, 0x1059), (0x105E, 0x1060), (0x1071, 0x1074), (0x1082, 0x1082),
     (0x1085, 0x1086), (0x108D, 0x108D), (0x109D, 0x109D), (0x10FC, 0x10FC), (0x135D, 0x135F),
     (0x1712, 0x1714), (0x1732, 0x1733), (0x1752, 0x1753), (0x1772, 0x1773), (0x17B4, 0x17B5),
     (0x17B7, 0x17BD), (0x17C6, 0x17C6), (0x17C9, 0x17D3), (0x17D7, 0x17D7), (0x17DD, 0x17DD),
     (0x180B, 0x180F), (0x1843, 0x1843), (0x1885, 0x1886), (0x18A9, 0x18A9), (0x1920, 0x1922),
     (0x1927, 0x1928), (0x1932, 0x1932), (0x1939, 0x193B), (0x1A17, 0x1A18), (0x1A1B, 0x1A1B),
     (0x1A56, 0x1A56), (0x1A58, 0x1A5E), (0x1A60, 0x1A60), (0x1A62, 0x1A62), (0x1A65, 0x1A6C),
     (0x1A73, 0x1A7C), (0x1A7F, 0x1A7F), (0x1AA7, 0x1AA7), (0x1AB0, 0x1ACE), (0x1B00, 0x1B03),
     (0x1B34, 0x1B34), (0x1B36, 0x1B3A), (0x1B3C, 0x1B3C), (0x1B42, 0x1B42), (0x1B6B, 0x1B73),
     (0x1B80, 0x1B81), (0x1BA2, 0x1BA5), (0x1BA8, 0x1BA9), (0x1BAB, 0x1BAD), (0x1BE6, 0x1BE6),
     (0x1BE8, 0x1BE9), (0x1BED, 0x1BED), (0x1BEF, 0x1BF1), (0x1C2C, 0x1C33), (0x1C36, 0x1C37),
     (0x1C78, 0x1C7D), (0x1CD0, 0x1CD2), (0x1CD4, 0x1CE0), (0x1CE2, 0x1CE8), (0x1CED, 0x1CED),
     (0x1CF4, 0x1CF4), (0x1CF8, 0x1CF9), (0x1D2C, 0x1D6A), (0x1D78, 0x1D78), (0x1D9B, 0x1DFF),
     (0x1FBD, 0x1FBD), (0x1FBF, 0x1FC1), (0x1FCD, 0x1FCF), (0x1FDD, 0x1FDF), (0x1FED, 0x1FEF),
     (0x1FFD, 0x1FFE), (0x200B, 0x200F), (0x2018, 0x2019), (0x2024, 0x2024), (0x2027, 0x2027),
     (0x202A, 0x202E), (0x2060, 0x2064), (0x2066, 0x206F), (0x2071, 0x2071), (0x207F, 0x207F),
     (0x2090, 0x209C), (0x20D0, 0x20F0), (0x2C7C, 0x2C7D), (0x2CEF, 0x2CF1), (0x2D6F, 0x2D6F),
     (0x2D7F, 0x2D7F), (0x2DE0, 0x2DFF), (0x2E2F, 0x2E2F), (0x3005, 0x3005), (0x302A, 0x302D),
     (0x3031, 0x3035), (0x303B, 0x303B), (0x3099, 0x309E), (0x30FC, 0x30FE), (0xA015, 0xA015),
     (0xA4F8, 0xA4FD), (0xA60C, 0xA60C), (0xA66F, 0xA672), (0xA674, 0xA67D), (0xA67F, 0xA67F),
     (0xA69C, 0xA69F), (0xA6F0, 0xA6F1), (0xA700, 0xA721), (0xA770, 0xA770), (0xA788, 0xA78A),
     (0xA7F2, 0xA7F4), (0xA7F8, 0xA7F9), (0xA802, 0xA802), (0xA806, 0xA806), (0xA80B, 0xA80B),
     (0xA825, 0xA826), (0xA82C, 0xA82C), (0xA8C4, 0xA8C5), (0xA8E0, 0xA8F1), (0xA8FF, 0xA8FF),
     (0xA926, 0xA92D), (0xA947, 0xA951), (0xA980, 0xA982), (0xA9B3, 0xA9B3), (0xA9B6, 0xA9B9),
     (0xA9BC, 0xA9BD), (0xA9CF, 0xA9CF), (0xA9E5, 0xA9E6), (0xAA29, 0xAA2E), (0xAA31, 0xAA32),
     (0xAA35, 0xAA36), (0xAA43, 0xAA43), (0xAA4C, 0xAA4C), (0xAA70, 0xAA70), (0xAA7C, 0xAA7C),
     (0xAAB0, 0xAAB0), (0xAAB2, 0xAAB4), (0xAAB7, 0xAAB8), (0xAABE, 0xAABF), (0xAAC1, 0xAAC1),
     (0xAADD, 0xAADD), (0xAAEC, 0xAAED), (0xAAF3, 0xAAF4), (0xAAF6, 0xAAF6), (0xAB5B, 0xAB5F),
     (0xAB69, 0xAB6B), (0xABE5, 0xABE5), (0xABE8, 0xABE8), (0xABED, 0xABED), (0xFB1E, 0xFB1E),
     (0xFBB2, 0xFBC2), (0xFE00, 0xFE0F), (0xFE13, 0xFE13), (0xFE20, 0xFE2F), (0xFE52, 0xFE52),
     (0xFE55, 0xFE55), (0xFEFF, 0xFEFF), (0xFF07, 0xFF07), (0xFF0E, 0xFF0E), (0xFF1A, 0xFF1A),
     (0xFF3E, 0xFF3E), (0xFF40, 0xFF40), (0xFF70, 0xFF70), (0xFF9E, 0xFF9F), (0xFFE3, 0xFFE3),
     (0xFFF9, 0xFFFB), (0x101FD, 0x101FD), (0x102E0, 0x102E0), (0x10376, 0x1037A),
     (0x10780, 0x10785), (0x10787, 0x107B0), (0x107B2, 0x107BA), (0x10A01, 0x10A03),
     (0x10A05, 0x10A06), (0x10A0C, 0x10A0F), (0x10A38, 0x10A3A), (0x10A3F, 0x10A3F),
     (0x10AE5, 0x10AE6), (0x10D24, 0x10D27), (0x10EAB, 0x10EAC), (0x10F46, 0x10F50),
     (0x10F82, 0x10F85), (0x11001, 0x11001), (0x11038, 0x11046), (0x11070, 0x11070),
     (0x11073, 0x11074), (0x1107F, 0x11081), (0x110B3, 0x110B6), (0x110B9, 0x110BA),
     (0x110BD, 0x110BD), (0x110C2, 0x110C2), (0x110CD, 0x110CD), (0x11100, 0x11102),
     (0x11127, 0x1112B), (0x1112D, 0x11134), (0x11173, 0x11173), (0x11180, 0x11181),
     (0x111B6, 0x111BE), (0x111C9, 0x111CC), (0x111CF, 0x111CF), (0x1122F, 0x11231),
     (0x11234, 0x11234), (0x11236, 0x11237), (0x1123E, 0x1123E), (0x112DF, 0x112DF),
     (0x112E3, 0x112EA), (0x11300, 0x11301), (0x1133B, 0x1133C), (0x11340, 0x11340),
     (0x11366, 0x1136C), (0x11370, 0x11374), (0x11438, 0x1143F), (0x11442, 0x11444),
     (0x11446, 0x11446), (0x1145E, 0x1145E), (0x114B3, 0x114B8), (0x114BA, 0x114BA),
     (0x114BF, 0x114C0), (0x114C2, 0x114C3), (0x115B2, 0x115B5), (0x115BC, 0x115BD),
     (0x115BF, 0x115C0), (0x115DC, 0x115DD), (0x11633, 0x1163A), (0x1163D, 0x1163D),
     (0x1163F, 0x11640), (0x116AB, 0x116AB), (0x116AD, 0x116AD), (0x116B0, 0x116B5),
     (0x116B7, 0x116B7), (0x1171D, 0x1171F), (0x11722, 0x11725), (0x11727, 0x1172B),
     (0x1182F, 0x11837), (0x11839, 0x1183A), (0x1193B, 0x1193C), (0x1193E, 0x1193E),
     (0x11943, 0x11943), (0x119D4, 0x119D7), (0x119DA, 0x119DB), (0x119E0, 0x119E0),
     (0x11A01, 0x11A0A), (0x11A33, 0x11A38), (0x11A3B, 0x11A3E), (0x11A47, 0x11A47),
     (0x11A51, 0x11A56), (0x11A59, 0x11A5B), (0x11A8A, 0x11A96), (0x11A98, 0x11A99),
     (0x11C30, 0x11C36), (0x11C38, 0x11C3D), (0x11C3F, 0x11C3F), (0x11C92, 0x11CA7),
     (0x11CAA, 0x11CB0), (0x11CB2, 0x11CB3), (0x11CB5, 0x11CB6), (0x11D31, 0x11D36),
     (0x11D3A, 0x11D3A), (0x11D3C, 0x11D3D), (0x11D3F, 0x11D45), (0x11D47, 0x11D47),
     (0x11D90, 0x11D91), (0x11D95, 0x11D95), (0x11D97, 0x11D97), (0x11EF3, 0x11EF4),
     (0x13430, 0x13438), (0x16AF0, 0x16AF4), (0x16B30, 0x16B36), (0x16B40, 0x16B43),
     (0x16F4F, 0x16F4F), (0x16F8F, 0x16F9F), (0x16FE0, 0x16FE1), (0x16FE3, 0x16FE4),
     (0x1AFF0, 0x1AFF3), (0x1AFF5, 0x1AFFB), (0x1AFFD, 0x1AFFE), (0x1BC9D, 0x1BC9E),
     (0x1BCA0, 0x1BCA3), (0x1CF00, 0x1CF2D), (0x1CF30, 0x1CF46), (0x1D167, 0x1D169),
     (0x1D173, 0x1D182), (0x1D185, 0x1D18B), (0x1D1AA, 0x1D1AD), (0x1D242, 0x1D244),
     (0x1DA00, 0x1DA36), (0x1DA3B, 0x1DA6C), (0x1DA75, 0x1DA75), (0x1DA84, 0x1DA84),
     (0x1DA9B, 0x1DA9F), (0x1DAA1, 0x1DAAF), (0x1E000, 0x1E006), (0x1E008, 0x1E018),
     (0x1E01B, 0x1E021), (0x1E023, 0x1E024), (0x1E026, 0x1E02A), (0x1E130, 0x1E13D),
     (0x1E2AE, 0x1E2AE), (0x1E2EC, 0x1E2EF), (0x1E8D0, 0x1E8D6), (0x1E944, 0x1E94B),
     (0x1F3FB, 0x1F3FF), (0xE0001, 0xE0001), (0xE0020, 0xE007F), (0xE0100, 0xE01EF)]"

text \<open>
  The cased letters that are not case-ignorable; the sigma rule asks for a cased letter
  only after it has passed over the case-ignorable characters.
\<close>

definition cased :: "(int \<times> int) list" where
  "cased =
    [
     (0x41, 0x5A), (0x61, 0x7A), (0xAA, 0xAA), (0xB5, 0xB5), (0xBA, 0xBA), (0xC0, 0xD6),
     (0xD8, 0xF6), (0xF8, 0x1BA), (0x1BC, 0x1BF), (0x1C4, 0x293), (0x295, 0x2AF),
     (0x370, 0x373), (0x376, 0x377), (0x37B, 0x37D), (0x37F, 0x37F), (0x386, 0x386),
     (0x388, 0x38A), (0x38C, 0x38C), (0x38E, 0x3A1), (0x3A3, 0x3F5), (0x3F7, 0x481),
     (0x48A, 0x52F), (0x531, 0x556), (0x560, 0x588), (0x10A0, 0x10C5), (0x10C7, 0x10C7),
     (0x10CD, 0x10CD), (0x10D0, 0x10FA), (0x10FD, 0x10FF), (0x13A0, 0x13F5), (0x13F8, 0x13FD),
     (0x1C80, 0x1C88), (0x1C90, 0x1CBA), (0x1CBD, 0x1CBF), (0x1D00, 0x1D2B), (0x1D6B, 0x1D77),
     (0x1D79, 0x1D9A), (0x1E00, 0x1F15), (0x1F18, 0x1F1D), (0x1F20, 0x1F45), (0x1F48, 0x1F4D),
     (0x1F50, 0x1F57), (0x1F59, 0x1F59), (0x1F5B, 0x1F5B), (0x1F5D, 0x1F5D), (0x1F5F, 0x1F7D),
     (0x1F80, 0x1FB4), (0x1FB6, 0x1FBC), (0x1FBE, 0x1FBE), (0x1FC2, 0x1FC4), (0x1FC6, 0x1FCC),
     (0x1FD0, 0x1FD3), (0x1FD6, 0x1FDB), (0x1FE0, 0x1FEC), (0x1FF2, 0x1FF4), (0x1FF6, 0x1FFC),
     (0x2102, 0x2102), (0x2107, 0x2107), (0x210A, 0x2113), (0x2115, 0x2115), (0x2119, 0x211D),
     (0x2124, 0x2124), (0x2126, 0x2126), (0x2128, 0x2128), (0x212A, 0x212D), (0x212F, 0x2134),
     (0x2139, 0x2139), (0x213C, 0x213F), (0x2145, 0x2149), (0x214E, 0x214E), (0x2160, 0x217F),
     (0x2183, 0x2184), (0x24B6, 0x24E9), (0x2C00, 0x2C7B), (0x2C7E, 0x2CE4), (0x2CEB, 0x2CEE),
     (0x2CF2, 0x2CF3), (0x2D00, 0x2D25), (0x2D27, 0x2D27), (0x2D2D, 0x2D2D), (0xA640, 0xA66D),
     (0xA680, 0xA69B), (0xA722, 0xA76F), (0xA771, 0xA787), (0xA78B, 0xA78E), (0xA790, 0xA7CA),
     (0xA7D0, 0xA7D1), (0xA7D3, 0xA7D3), (0xA7D5, 0xA7D9), (0xA7F5, 0xA7F6), (0xA7FA, 0xA7FA),
     (0xAB30, 0xAB5A), (0xAB60, 0xAB68), (0xAB70, 0xABBF), (0xFB00, 0xFB06), (0xFB13, 0xFB17),
     (0xFF21, 0xFF3A), (0xFF41, 0xFF5A), (0x10400, 0x1044F), (0x104B0, 0x104D3),
     (0x104D8, 0x104FB), (0x10570, 0x1057A), (0x1057C, 0x1058A), (0x1058C, 0x10592),
     (0x10594, 0x10595), (0x10597, 0x105A1), (0x105A3, 0x105B1), (0x105B3, 0x105B9),
     (0x105BB, 0x105BC), (0x10C80, 0x10CB2), (0x10CC0, 0x10CF2), (0x118A0, 0x118DF),
     (0x16E40, 0x16E7F), (0x1D400, 0x1D454), (0x1D456, 0x1D49C), (0x1D49E, 0x1D49F),
     (0x1D4A2, 0x1D4A2), (0x1D4A5, 0x1D4A6), (0x1D4A9, 0x1D4AC), (0x1D4AE, 0x1D4B9),
     (0x1D4BB, 0x1D4BB), (0x1D4BD, 0x1D4C3), (0x1D4C5, 0x1D505), (0x1D507, 0x1D50A),
     (0x1D50D, 0x1D514), (0x1D516, 0x1D51C), (0x1D51E, 0x1D539), (0x1D53B, 0x1D53E),
     (0x1D540, 0x1D544), (0x1D546, 0x1D546), (0x1D54A, 0x1D550), (0x1D552, 0x1D6A5),
     (0x1D6A8, 0x1D6C0), (0x1D6C2, 0x1D6DA), (0x1D6DC, 0x1D6FA), (0x1D6FC, 0x1D714),
     (0x1D716, 0x1D734), (0x1D736, 0x1D74E), (0x1D750, 0x1D76E), (0x1D770, 0x1D788),
     (0x1D78A, 0x1D7A8), (0x1D7AA, 0x1D7C2), (0x1D7C4, 0x1D7CB), (0x1DF00, 0x1DF09),
     (0x1DF0B, 0x1DF1E), (0x1E900, 0x1E943), (0x1F130, 0x1F149), (0x1F150, 0x1F169),
     (0x1F170, 0x1F189)]"

fun codePoints :: "jsstring \<Rightarrow> int list" where
  "codePoints [] = []"
| "codePoints [c] = [uint c]"
| "codePoints (c # d # s) =
     (if 0xD800 \<le> c \<and> c \<le> 0xDBFF \<and> 0xDC00 \<le> d \<and> d \<le> 0xDFFF
      then (0x10000 + (uint c - 0xD800) * 0x400 + (uint d - 0xDC00)) # codePoints s
      else uint c # codePoints (d # s))"

definition codeUnits :: "int \<Rightarrow> jsstring" where
  "codeUnits cp =
     (if cp < 0x10000 then [word_of_int cp]
      else [word_of_int (0xD800 + (cp - 0x10000) div 0x400),
            word_of_int (0xDC00 + (cp - 0x10000) mod 0x400)])"

text \<open>The next character that is not case-ignorable exists and is a cased letter.\<close>

definition reachesCased :: "int list \<Rightarrow> bool" where
  "reachesCased cps =
     (case dropWhile (inRanges caseIgnorable) cps of
        [] \<Rightarrow> False
      | cp # _ \<Rightarrow> inRanges cased cp)"

text \<open>
  The lower-case form of one character; \<open>before\<close> are the characters in front of it, the
  nearest first, and \<open>after\<close> those behind it.
\<close>

definition lowerPoint :: "int list \<Rightarrow> int \<Rightarrow> int list \<Rightarrow> int list" where
  "lowerPoint before cp after =
     (if cp < 0x80 then [if 0x41 \<le> cp \<and> cp \<le> 0x5A then cp + 0x20 else cp]
      else if cp = 0x130 then [0x69, 0x307]
      else if cp = 0x3A3 then
        [if reachesCased before \<and> \<not> reachesCased after then 0x3C2 else 0x3C3]
      else [mapRuns lowerRuns cp])"

fun lowerFrom :: "int list \<Rightarrow> int list \<Rightarrow> int list" where
  "lowerFrom before [] = []"
| "lowerFrom before (cp # after) = lowerPoint before cp after @ lowerFrom (cp # before) after"

definition toLowerCase :: "jsstring \<Rightarrow> jsstring" where
  "toLowerCase s = concat (map codeUnits (lowerFrom [] (codePoints s)))"

section \<open>Compiled patterns and \<open>RegExp.prototype.exec\<close>\<close>

text \<open>
  The content script compiles two shapes of pattern, both with the \<open>g\<close> flag:
  \<^item> learn mode (\<open>getCompiledPatterns\<close>): \<open>new RegExp(`\\b(${chunk.join('|')})\\b`, 'gi')\<close>;
  \<^item> practice mode (\<open>translateUnknownWords\<close>): \<open>new RegExp(`(${escapedWords.join('|')})`, 'g')\<close>.

  Every alternative is a word passed through \<open>escapeRegex\<close>, so it matches exactly the code
  units of that word. A compiled pattern is therefore an ordered list of literal
  alternatives together with the two features in which the shapes differ.
\<close>

record regexp =
  alternatives :: "jsstring list"
  wordBoundary :: bool
  ignoreCase :: bool

text \<open>The assertion \<open>\b\<close> at offset \<open>i\<close>: exactly one of the two neighbours is a word character.\<close>

definition isWordAt :: "jsstring \<Rightarrow> nat \<Rightarrow> bool" where
  "isWordAt s i \<longleftrightarrow> i < length s \<and> isWordChar (s ! i)"

definition atBoundary :: "jsstring \<Rightarrow> nat \<Rightarrow> bool" where
  "atBoundary s i \<longleftrightarrow> ((0 < i \<and> isWordAt s (i - 1)) \<noteq> isWordAt s i)"

definition sameUnits :: "bool \<Rightarrow> jsstring \<Rightarrow> jsstring \<Rightarrow> bool" where
  "sameUnits ic a b \<longleftrightarrow> (if ic then map canonicalize a = map canonicalize b else a = b)"

text \<open>
  One alternative at one start offset: its code units are there and, for an anchored
  pattern, the closing \<open>\b\<close> holds behind them. The matcher backtracks into the next
  alternative when the closing anchor fails, so the first alternative for which both
  hold is the one that matches.
\<close>

definition altMatches :: "regexp \<Rightarrow> jsstring \<Rightarrow> nat \<Rightarrow> jsstring \<Rightarrow> bool" where
  "altMatches r s i alt \<longleftrightarrow>
     i + length alt \<le> length s \<and>
     sameUnits (ignoreCase r) (jsSlice s i (i + length alt)) alt \<and>
     (wordBoundary r \<longrightarrow> atBoundary s (i + length alt))"

definition matchAt :: "regexp \<Rightarrow> jsstring \<Rightarrow> nat \<Rightarrow> nat option" where
  "matchAt r s i =
     (if wordBoundary r \<and> \<not> atBoundary s i then None
      else (case find (altMatches r s i) (alternatives r) of
              None \<Rightarrow> None
            | Some alt \<Rightarrow> Some (i + length alt)))"

fun firstMatch :: "regexp \<Rightarrow> jsstring \<Rightarrow> nat list \<Rightarrow> (nat \<times> nat) option" where
  "firstMatch r s [] = None"
| "firstMatch r s (i # is) =
     (case matchAt r s i of
        Some e \<Rightarrow> Some (i, e)
      | None \<Rightarrow> firstMatch r s is)"

text \<open>
  \<open>pattern.exec(s)\<close> with \<open>pattern.lastIndex = k\<close>: the leftmost start offset from \<open>k\<close>
  up to the end of the string at which the pattern matches, as \<open>(match.index, lastIndex')\<close>;
  \<open>null\<close> when there is none.
\<close>

definition exec :: "regexp \<Rightarrow> jsstring \<Rightarrow> nat \<Rightarrow> (nat \<times> nat) option" where
  "exec r s k = firstMatch r s [k ..< Suc (length s)]"

text \<open>\<open>pattern.lastIndex = 0; pattern.test(s)\<close>\<close>

definition test :: "regexp \<Rightarrow> jsstring \<Rightarrow> bool" where
  "test r s \<longleftrightarrow> exec r s 0 \<noteq> None"

lemma matchAt_bounds:
  assumes "matchAt r s i = Some e"
  shows "i \<le> e \<and> e \<le> length s"
proof -
  from assms obtain alt where f: "find (altMatches r s i) (alternatives r) = Some alt"
    and e: "e = i + length alt"
    by (auto simp: matchAt_def split: if_splits option.splits)
  from f have "altMatches r s i alt" by (auto simp: find_Some_iff)
  with e show ?thesis by (simp add: altMatches_def)
qed

lemma firstMatch_bounds:
  assumes "firstMatch r s js = Some (i, e)"
  shows "i \<in> set js \<and> i \<le> e \<and> e \<le> length s"
  using assms
proof (induction js)
  case Nil
  then show ?case by simp
next
  case (Cons j js)
  show ?case
  proof (cases "matchAt r s j")
    case None
    with Cons show ?thesis by simp
  next
    case (Some e')
    with Cons.prems have "i = j" "e = e'" by simp_all
    with Some matchAt_bounds[of r s j e'] show ?thesis by simp
  qed
qed

lemma exec_bounds:
  assumes "exec r s k = Some (i, e)"
  shows "k \<le> i \<and> i \<le> e \<and> e \<le> length s"
  using firstMatch_bounds[OF assms[unfolded exec_def]] by auto

section \<open>Building the patterns\<close>

text \<open>
  \<open>escapeRegex\<close>: \<^verbatim>\<open>string.replace(/[.*+?^${}()|[\]\\]/g, '\\$&')\<close> puts a backslash in front
  of each of the fourteen syntax characters.
\<close>

definition backslash :: code_unit where "backslash = 0x5C"

definition bar :: code_unit where "bar = 0x7C"

definition lparen :: code_unit where "lparen = 0x28"

definition rparen :: code_unit where "rparen = 0x29"

definition syntaxChars :: "code_unit list" where
  "syntaxChars = [0x2E, 0x2A, 0x2B, 0x3F, 0x5E, 0x24, 0x7B, 0x7D, 0x28, 0x29, 0x7C, 0x5B, 0x5D, 0x5C]"

definition escapeRegex :: "jsstring \<Rightarrow> jsstring" where
  "escapeRegex string = concat (map (\<lambda>c. if c \<in> set syntaxChars then [backslash, c] else [c]) string)"

text \<open>\<open>words.join(sep)\<close>\<close>

fun join :: "jsstring \<Rightarrow> jsstring list \<Rightarrow> jsstring" where
  "join sep [] = []"
| "join sep [w] = w"
| "join sep (w # v # ws) = w @ sep @ join sep (v # ws)"

datatype exn = SyntaxError | TypeError

text \<open>
  The \<open>RegExp\<close> constructor, for the pattern sources this program builds: an optional
  \<open>\b\<close>, one group of alternatives, an optional \<open>\b\<close>. Inside the group a backslash
  followed by a syntax character stands for that character, an unescaped \<open>|\<close> starts the
  next alternative, an unescaped \<open>)\<close> closes the group, and any other code unit stands for
  itself. A source of any other shape is a \<open>SyntaxError\<close> of the model.
\<close>

fun parseGroup :: "jsstring \<Rightarrow> jsstring \<Rightarrow> jsstring list \<Rightarrow> (jsstring list \<times> jsstring) option" where
  "parseGroup [] cur alts = None"
| "parseGroup [c] cur alts = (if c = rparen then Some (alts @ [cur], []) else None)"
| "parseGroup (c # d # ds) cur alts =
     (if c = backslash then
        (if d \<in> set syntaxChars then parseGroup ds (cur @ [d]) alts else None)
      else if c = bar then parseGroup (d # ds) [] (alts @ [cur])
      else if c = rparen then Some (alts @ [cur], d # ds)
      else if c \<in> set syntaxChars then None
      else parseGroup (d # ds) (cur @ [c]) alts)"

definition wordAnchor :: jsstring where
  "wordAnchor = [backslash, 0x62]"

definition newRegExp :: "jsstring \<Rightarrow> jsstring \<Rightarrow> exn + regexp" where
  "newRegExp source flags =
     (let anchored = (take 2 source = wordAnchor);
          body = (if anchored then drop 2 source else source)
      in case body of
           [] \<Rightarrow> Inl SyntaxError
         | c # cs \<Rightarrow>
             if c \<noteq> lparen then Inl SyntaxError
             else (case parseGroup cs [] [] of
                     None \<Rightarrow> Inl SyntaxError
                   | Some (alts, rest) \<Rightarrow>
                       if rest = (if anchored then wordAnchor else [])
                       then Inr \<lparr>alternatives = alts, wordBoundary = anchored,
                                 ignoreCase = (0x69 \<in> set flags)\<rparr>
                       else Inl SyntaxError))"

text \<open>
  A plain object is the list of its own entries in property order. The lookup
  \<open>object[key]\<close> gives the value of the own entry with that key; when there is none it
  goes on to \<open>Object.prototype\<close>, whose properties every plain object inherits. \<open>None\<close> is
  \<open>undefined\<close>. The inherited values are built-in functions, and the object
  \<open>Object.prototype\<close> itself for \<open>__proto__\<close>; the model keeps the name under which such a
  value was found.
\<close>

definition objectPrototype :: "jsstring list" where
  "objectPrototype =
     map ascii [''constructor'', ''__defineGetter__'', ''__defineSetter__'', ''hasOwnProperty'',
                ''__lookupGetter__'', ''__lookupSetter__'', ''isPrototypeOf'',
                ''propertyIsEnumerable'', ''toString'', ''valueOf'', ''__proto__'',
                ''toLocaleString'']"

datatype 'a property = Own 'a | Inherited jsstring

definition getProperty :: "(jsstring \<times> 'a) list \<Rightarrow> jsstring \<Rightarrow> 'a property option" where
  "getProperty object key =
     (case map_of object key of
        Some v \<Rightarrow> Some (Own v)
      | None \<Rightarrow> if key \<in> set objectPrototype then Some (Inherited key) else None)"

text \<open>
  The vocabulary \<open>knownWords\<close>: a plain object, loaded from the extension's storage. The
  order of its entries is the order of \<open>Object.keys\<close>; the keys of an object are distinct.
\<close>

record wordData =
  translation :: jsstring
  pinyin :: "jsstring option"

type_synonym vocabulary = "(jsstring \<times> wordData) list"

definition objectKeys :: "vocabulary \<Rightarrow> jsstring list" where
  "objectKeys knownWords = map fst knownWords"

text \<open>The two module variables \<open>cachedPatterns\<close> and \<open>cachedKnownWordsHash\<close>; \<open>None\<close> is \<open>null\<close>.\<close>

record patternCache =
  cachedPatterns :: "regexp list option"
  cachedKnownWordsHash :: "jsstring option"

text \<open>\<open>for (let i = 0; i < escapedWords.length; i += CHUNK_SIZE) escapedWords.slice(i, i + CHUNK_SIZE)\<close>\<close>

definition CHUNK_SIZE :: nat where
  "CHUNK_SIZE = 200"

function chunksOf :: "jsstring list \<Rightarrow> jsstring list list" where
  "chunksOf escapedWords =
     (if escapedWords = [] then []
      else take CHUNK_SIZE escapedWords # chunksOf (drop CHUNK_SIZE escapedWords))"
  by pat_completeness auto
termination
  by (relation "measure length") (auto simp: CHUNK_SIZE_def)

declare chunksOf.simps [simp del]

fun compileChunks :: "jsstring list list \<Rightarrow> exn + regexp list" where
  "compileChunks [] = Inr []"
| "compileChunks (chunk # chunks) =
     (case newRegExp (wordAnchor @ [lparen] @ join [bar] chunk @ [rparen] @ wordAnchor) (ascii ''gi'') of
        Inl e \<Rightarrow> Inl e
      | Inr r \<Rightarrow>
          (case compileChunks chunks of
             Inl e \<Rightarrow> Inl e
           | Inr rs \<Rightarrow> Inr (r # rs)))"

text \<open>
  \<open>getCompiledPatterns\<close>. \<open>wordList.sort()\<close> sorts the key list in place, so the hash and
  the patterns are both built from the sorted keys. An array is truthy even when empty,
  so \<open>cachedPatterns &&\<close> asks only that the cache is not \<open>null\<close>.
\<close>

definition knownWordsHash :: "vocabulary \<Rightarrow> jsstring" where
  "knownWordsHash knownWords = join [bar] (sort (objectKeys knownWords))"

definition getCompiledPatterns :: "vocabulary \<Rightarrow> patternCache \<Rightarrow> exn + (regexp list \<times> patternCache)" where
  "getCompiledPatterns knownWords cache =
     (let wordList = sort (objectKeys knownWords);
          currentHash = join [bar] wordList
      in case cachedPatterns cache of
           Some cached \<Rightarrow>
             if cachedKnownWordsHash cache = Some currentHash then Inr (cached, cache)
             else (case compileChunks (chunksOf (map escapeRegex wordList)) of
                     Inl e \<Rightarrow> Inl e
                   | Inr patterns \<Rightarrow>
                       Inr (patterns, \<lparr>cachedPatterns = Some patterns,
                                        cachedKnownWordsHash = Some currentHash\<rparr>))
         | None \<Rightarrow>
             (case compileChunks (chunksOf (map escapeRegex wordList)) of
                Inl e \<Rightarrow> Inl e
              | Inr patterns \<Rightarrow>
                  Inr (patterns, \<lparr>cachedPatterns = Some patterns,
                                   cachedKnownWordsHash = Some currentHash\<rparr>)))"

text \<open>
  The pattern of practice mode (\<open>translateUnknownWords\<close>), built from the translations
  of the entries in key order, with the flag \<open>g\<close> alone and no anchors. The function
  returns before it builds a pattern when the vocabulary is empty.
\<close>

definition practicePattern :: "vocabulary \<Rightarrow> exn + regexp" where
  "practicePattern knownWords =
     (let wordList = map (\<lambda>(w, d). translation d) knownWords;
          escapedWords = map escapeRegex wordList
      in newRegExp ([lparen] @ join [bar] escapedWords @ [rparen]) (ascii ''g''))"

section \<open>Collecting and resolving the matches of one text block\<close>

text \<open>The objects pushed by \<open>replaceTextNode\<close>: \<open>{text: match[0], index, endIndex}\<close>.\<close>

record match =
  mtext :: jsstring
  index :: nat
  endIndex :: nat

text \<open>
  The inner loop of \<open>replaceTextNode\<close>:
  \<^verbatim>\<open>while ((match = pattern.exec(originalText)) !== null) { matches.push(...) }\<close>
  \<open>exec\<close> leaves \<open>lastIndex\<close> at the end of the match and does not step over an empty
  match, so after an empty match the next call finds the same match again and the loop
  never ends. Not returning is the value \<open>None\<close>.
\<close>

function execAll :: "regexp \<Rightarrow> jsstring \<Rightarrow> nat \<Rightarrow> match list option" where
  "execAll r s k =
     (case exec r s k of
        None \<Rightarrow> Some []
      | Some (i, e) \<Rightarrow>
          if e \<le> i then None
          else (case execAll r s e of
                  None \<Rightarrow> None
                | Some ms \<Rightarrow> Some (\<lparr>mtext = jsSlice s i e, index = i, endIndex = e\<rparr> # ms)))"
  by pat_completeness auto
termination
proof (relation "measure (\<lambda>(r, s, k). length s - k)")
  show "wf (measure (\<lambda>(r, s, k). length s - k))" by simp
next
  fix r :: regexp and s :: jsstring and k :: nat and x2 :: "nat \<times> nat" and i e :: nat
  assume ex: "exec r s k = Some x2" and x2: "(i, e) = x2" and ne: "\<not> e \<le> i"
  from ex x2 have "exec r s k = Some (i, e)" by simp
  from exec_bounds[OF this] ne have "k < e" "e \<le> length s" by simp_all
  then show "((r, s, e), (r, s, k)) \<in> measure (\<lambda>(r, s, k). length s - k)" by simp
qed

declare execAll.simps [simp del]

text \<open>\<open>for (const pattern of patternsArray) { pattern.lastIndex = 0; while ... }\<close>\<close>

fun collectMatches :: "regexp list \<Rightarrow> jsstring \<Rightarrow> match list option" where
  "collectMatches [] s = Some []"
| "collectMatches (p # ps) s =
     (case execAll p s 0 of
        None \<Rightarrow> None
      | Some ms \<Rightarrow>
          (case collectMatches ps s of
             None \<Rightarrow> None
           | Some rest \<Rightarrow> Some (ms @ rest)))"

text \<open>
  The overlap filter, with \<open>uniqueMatches\<close> as the accumulator:
  \<^verbatim>\<open>if (uniqueMatches.length === 0 ||
      current.index >= uniqueMatches[uniqueMatches.length - 1].endIndex)
    uniqueMatches.push(current);\<close>
\<close>

fun removeOverlaps :: "match list \<Rightarrow> match list \<Rightarrow> match list" where
  "removeOverlaps uniqueMatches [] = uniqueMatches"
| "removeOverlaps uniqueMatches (current # rest) =
     (if uniqueMatches = [] \<or> endIndex (last uniqueMatches) \<le> index current
      then removeOverlaps (uniqueMatches @ [current]) rest
      else removeOverlaps uniqueMatches rest)"

text \<open>
  \<open>matches.sort((a, b) => a.index - b.index)\<close> is a stable sort on the start offset,
  followed by the filter.
\<close>

definition uniqueMatchesOf :: "match list \<Rightarrow> match list" where
  "uniqueMatchesOf matches = removeOverlaps [] (sort_key index matches)"

definition resolveMatches :: "regexp list \<Rightarrow> jsstring \<Rightarrow> match list option" where
  "resolveMatches patterns s = map_option uniqueMatchesOf (collectMatches patterns s)"

section \<open>The compound dictionary and \<open>findCompound\<close>\<close>

text \<open>
  The constant object \<open>CompoundWords\<close>, entry by entry; a key is written as its code units.
\<close>

definition CompoundWords :: "(jsstring \<times> jsstring) list" where
  "CompoundWords =
    [([0x5979, 0x7684], ascii ''her''),
     ([0x4ED6, 0x7684], ascii ''his''),
     ([0x6211, 0x7684], ascii ''my''),
     ([0x4F60, 0x7684], ascii ''your''),
     ([0x6211, 0x4EEC], ascii ''we''),
     ([0x4ED6, 0x4EEC], ascii ''they''),
     ([0x5B83, 0x4EEC], ascii ''they''),
     ([0x8FD9, 0x4E2A], ascii ''this''),
     ([0x90A3, 0x4E2A], ascii ''that''),
     ([0x8FD9, 0x4E9B], ascii ''these''),
     ([0x90A3, 0x4E9B], ascii ''those''),
     ([0x9884, 0x7B97], ascii ''budget''),
     ([0x653F, 0x5E9C], ascii ''government''),
     ([0x8BAE, 0x4F1A], ascii ''parliament''),
     ([0x56FD, 0x4F1A], ascii ''congress''),
     ([0x9996, 0x76F8], ascii ''prime minister''),
     ([0x603B, 0x7EDF], ascii ''president''),
     ([0x8D22, 0x653F], ascii ''financial''),
     ([0x90E8, 0x957F], ascii ''minister''),
     ([0x8BAE, 0x5458], ascii ''member of parliament''),
     ([0x9009, 0x4E3E], ascii ''election''),
     ([0x6295, 0x7968], ascii ''vote''),
     ([0x7A0E, 0x6536], ascii ''tax''),
     ([0x7ECF, 0x6D4E], ascii ''economy''),
     ([0x516C, 0x53F8], ascii ''company''),
     ([0x5DE5, 0x4F5C], ascii ''work''),
     ([0x5B66, 0x6821], ascii ''school''),
     ([0x5927, 0x5B66], ascii ''university''),
     ([0x533B, 0x9662], ascii ''hospital''),
     ([0x8B66, 0x5BDF], ascii ''police''),
     ([0x519B, 0x961F], ascii ''military''),
     ([0x4ECA, 0x5929], ascii ''today''),
     ([0x660E, 0x5929], ascii ''tomorrow''),
     ([0x6628, 0x5929], ascii ''yesterday''),
     ([0x73B0, 0x5728], ascii ''now''),
     ([0x4EE5, 0x524D], ascii ''before''),
     ([0x4EE5, 0x540E], ascii ''after''),
     ([0x65F6, 0x5019], ascii ''time''),
     ([0x661F, 0x671F], ascii ''week''),
     ([0x6708, 0x4EFD], ascii ''month''),
     ([0x5E74, 0x4EFD], ascii ''year''),
     ([0x53EF, 0x4EE5], ascii ''can''),
     ([0x5E94, 0x8BE5], ascii ''should''),
     ([0x5FC5, 0x987B], ascii ''must''),
     ([0x9700, 0x8981], ascii ''need''),
     ([0x60F3, 0x8981], ascii ''want''),
     ([0x5E0C, 0x671B], ascii ''hope''),
     ([0x8BA4, 0x4E3A], ascii ''think''),
     ([0x77E5, 0x9053], ascii ''know''),
     ([0x76F8, 0x4FE1], ascii ''believe''),
     ([0x56E0, 0x4E3A], ascii ''because''),
     ([0x6240, 0x4EE5], ascii ''so''),
     ([0x4F46, 0x662F], ascii ''but''),
     ([0x5982, 0x679C], ascii ''if''),
     ([0x867D, 0x7136], ascii ''although''),
     ([0x7136, 0x800C], ascii ''however''),
     ([0x800C, 0x4E14], ascii ''moreover''),
     ([0x6216, 0x8005], ascii ''or'')]"

text \<open>
  The object \<open>{compound, translation, length}\<close> that \<open>findCompound\<close> returns. The
  translation is what the lookup gave: a string of the dictionary or an inherited value.
\<close>

record compoundResult =
  compound :: jsstring
  compoundTranslation :: "jsstring property"
  compoundLength :: nat

text \<open>
  The test \<open>if (translation)\<close>: a string is truthy when it is not empty, a function or an
  object always.
\<close>

definition truthy :: "jsstring property \<Rightarrow> bool" where
  "truthy v = (case v of Own t \<Rightarrow> t \<noteq> [] | Inherited name \<Rightarrow> True)"

text \<open>
  \<open>words.join('')\<close>: an element that is \<open>undefined\<close> contributes the empty string. The caller
  pushes \<open>wordData.translation\<close>, which is \<open>undefined\<close> for an inherited \<open>wordData\<close>.
\<close>

definition joinWords :: "jsstring option list \<Rightarrow> jsstring" where
  "joinWords words = concat (map (\<lambda>w. case w of None \<Rightarrow> [] | Some t \<Rightarrow> t) words)"

text \<open>
  \<open>findCompound(words, startIndex, lookahead)\<close>: the loop
  \<^verbatim>\<open>for (let len = lookahead; len >= 1; len--)\<close> as a recursion on \<open>len\<close>.
\<close>

fun findCompoundLoop ::
  "(jsstring \<times> jsstring) list \<Rightarrow> jsstring option list \<Rightarrow> nat \<Rightarrow> nat \<Rightarrow> compoundResult option" where
  "findCompoundLoop dict words startIndex 0 = None"
| "findCompoundLoop dict words startIndex (Suc l) =
     (if startIndex + Suc l < length words then
        (let potentialCompound = joinWords (take (Suc l + 1) (drop startIndex words))
         in case getProperty dict potentialCompound of
              Some t \<Rightarrow>
                if truthy t then
                  Some \<lparr>compound = potentialCompound, compoundTranslation = t,
                        compoundLength = Suc l + 1\<rparr>
                else findCompoundLoop dict words startIndex l
            | None \<Rightarrow> findCompoundLoop dict words startIndex l)
      else findCompoundLoop dict words startIndex l)"

definition findCompound :: "jsstring option list \<Rightarrow> nat \<Rightarrow> nat \<Rightarrow> compoundResult option" where
  "findCompound words startIndex lookahead = findCompoundLoop CompoundWords words startIndex lookahead"

section \<open>The replacement fragment of one text node\<close>

text \<open>
  The children of the document fragment: text nodes and the generated \<open>span\<close> elements.
  An element carries what the program sets on it: the class, the attributes given to
  \<open>setAttribute\<close> in the order of the calls, the text content, the style text, the title,
  and the text its \<open>mouseover\<close> listener shows when listeners are attached.
\<close>

record element =
  tagName :: string
  className :: string
  attributes :: "(string \<times> jsstring) list"
  textContent :: jsstring
  cssText :: string
  title :: string
  tooltip :: "jsstring option"

datatype node = TextNode jsstring | ElementNode element

definition newline :: code_unit where "newline = 0x0A"

definition space :: code_unit where "space = 0x20"

text \<open>
  \<open>wordData.translation\<close> and \<open>wordData.pinyin\<close>, where \<open>wordData\<close> is what the lookup in the
  vocabulary gave. An inherited function or object has neither property: both are
  \<open>undefined\<close>.
\<close>

definition translationOf :: "wordData property \<Rightarrow> jsstring option" where
  "translationOf wordData = (case wordData of Own d \<Rightarrow> Some (translation d) | Inherited name \<Rightarrow> None)"

definition pinyinOf :: "wordData property \<Rightarrow> jsstring option" where
  "pinyinOf wordData = (case wordData of Own d \<Rightarrow> pinyin d | Inherited name \<Rightarrow> None)"

text \<open>
  The unit for a single word. Setting \<open>textContent\<close> to \<open>undefined\<close> leaves the element
  without text.
\<close>

definition translatedSpan :: "bool \<Rightarrow> jsstring \<Rightarrow> wordData property \<Rightarrow> element" where
  "translatedSpan showTooltips matchedWord wordData =
     \<lparr>tagName = ''SPAN'',
      className = ''lang-learner-translated'',
      attributes = [(''data-original'', matchedWord), (''data-translated'', ascii ''true'')],
      textContent = (case translationOf wordData of None \<Rightarrow> [] | Some t \<Rightarrow> t),
      cssText = ''text-decoration: underline dotted; cursor: help; color: inherit;'',
      title = [],
      tooltip =
        (if showTooltips then
           Some (case pinyinOf wordData of
                   None \<Rightarrow> matchedWord
                 | Some p \<Rightarrow> if p \<noteq> [] then matchedWord @ [newline] @ p else matchedWord)
         else None)\<rparr>"

text \<open>
  The unit for a compound. \<open>span.textContent = compoundResult.translation\<close> converts the
  value to a string: a string is itself, an inherited function is printed the way the
  engine of the browser prints a built-in function, and the inherited \<open>__proto__\<close> is the
  object \<open>Object.prototype\<close>, printed as \<open>[object Object]\<close>.
\<close>

definition toDOMString :: "jsstring property \<Rightarrow> jsstring" where
  "toDOMString v =
     (case v of
        Own t \<Rightarrow> t
      | Inherited name \<Rightarrow>
          if name = ascii ''__proto__'' then ascii ''[object Object]''
          else ascii ''function '' @ (if name = ascii ''constructor'' then ascii ''Object'' else name)
                 @ ascii ''() { [native code] }'')"

definition compoundSpan :: "bool \<Rightarrow> compoundResult \<Rightarrow> jsstring list \<Rightarrow> element" where
  "compoundSpan showTooltips compoundResult originalWords =
     \<lparr>tagName = ''SPAN'',
      className = ''lang-learner-translated lang-learner-compound'',
      attributes = [(''data-original'', join [space] originalWords),
                    (''data-compound'', compound compoundResult),
                    (''data-translated'', ascii ''true'')],
      textContent = toDOMString (compoundTranslation compoundResult),
      cssText = ''text-decoration: underline dotted; cursor: help; color: inherit; font-weight: 500;'',
      title = [],
      tooltip =
        (if showTooltips then
           Some (compound compoundResult @ [newline, lparen] @ join [space] originalWords @ [rparen])
         else None)\<rparr>"

text \<open>The loop variables of \<open>replaceTextNode\<close>.\<close>

record loopState =
  fragment :: "node list"
  lastIndex :: nat
  processedIndices :: "nat set"

text \<open>\<open>knownWords[wordKey]\<close>\<close>

definition lookupWord :: "vocabulary \<Rightarrow> jsstring \<Rightarrow> wordData property option" where
  "lookupWord knownWords wordKey = getProperty knownWords wordKey"

text \<open>
  \<^verbatim>\<open>for (let j = i + 1; j < uniqueMatches.length && j <= i + 2; j++)\<close>: what
  \<open>nextData.translation\<close> is for those of the next two matches whose lookup gives a value.
\<close>

definition nextTranslations :: "vocabulary \<Rightarrow> match list \<Rightarrow> nat \<Rightarrow> jsstring option list" where
  "nextTranslations knownWords uniqueMatches i =
     List.map_filter
       (\<lambda>m. map_option translationOf (lookupWord knownWords (toLowerCase (mtext m))))
       (take 2 (drop (i + 1) uniqueMatches))"

definition appendTextBefore :: "jsstring \<Rightarrow> nat \<Rightarrow> loopState \<Rightarrow> node list" where
  "appendTextBefore originalText start st =
     (if lastIndex st < start
      then fragment st @ [TextNode (jsSlice originalText (lastIndex st) start)]
      else fragment st)"

text \<open>
  One round of the loop over \<open>i\<close> in the branch that consults \<open>findCompound\<close>. Every
  caller passes a \<open>stats\<close> object, so the statements under \<open>if (stats)\<close> are executed;
  of these only \<open>processedIndices.add(j)\<close> bears on the fragment, and the counters are
  left out.
\<close>

definition compoundStep :: "vocabulary \<Rightarrow> bool \<Rightarrow> jsstring \<Rightarrow> match list \<Rightarrow> nat \<Rightarrow> loopState \<Rightarrow> loopState" where
  "compoundStep knownWords showTooltips originalText uniqueMatches i st =
     (if i \<in> processedIndices st then st
      else
        let currentMatch = uniqueMatches ! i;
            matchedWord = mtext currentMatch;
            wordKey = toLowerCase matchedWord
        in case lookupWord knownWords wordKey of
             None \<Rightarrow> st
           | Some wordData \<Rightarrow>
               let chineseWords = translationOf wordData # nextTranslations knownWords uniqueMatches i;
                   compoundResult =
                     (if 1 < length chineseWords then findCompound chineseWords 0 2 else None);
                   before = appendTextBefore originalText (index currentMatch) st
               in case compoundResult of
                    Some r \<Rightarrow>
                      let consumed = [i ..< min (i + compoundLength r) (length uniqueMatches)];
                          originalWords = map (\<lambda>j. mtext (uniqueMatches ! j)) consumed
                      in \<lparr>fragment = before @ [ElementNode (compoundSpan showTooltips r originalWords)],
                          lastIndex = endIndex (uniqueMatches ! (i + compoundLength r - 1)),
                          processedIndices = processedIndices st \<union> set consumed\<rparr>
                  | None \<Rightarrow>
                      \<lparr>fragment = before @ [ElementNode (translatedSpan showTooltips matchedWord wordData)],
                       lastIndex = endIndex currentMatch,
                       processedIndices = insert i (processedIndices st)\<rparr>)"

text \<open>One round of the loop \<open>for (const match of uniqueMatches)\<close> of the other branch.\<close>

definition plainStep :: "vocabulary \<Rightarrow> bool \<Rightarrow> jsstring \<Rightarrow> match \<Rightarrow> loopState \<Rightarrow> loopState" where
  "plainStep knownWords showTooltips originalText m st =
     (let matchedWord = mtext m;
          wordKey = toLowerCase matchedWord
      in case lookupWord knownWords wordKey of
           None \<Rightarrow> st
         | Some wordData \<Rightarrow>
             \<lparr>fragment = appendTextBefore originalText (index m) st
                           @ [ElementNode (translatedSpan showTooltips matchedWord wordData)],
              lastIndex = endIndex m,
              processedIndices = processedIndices st\<rparr>)"

definition initialLoopState :: loopState where
  "initialLoopState = \<lparr>fragment = [], lastIndex = 0, processedIndices = {}\<rparr>"

definition runLoop :: "vocabulary \<Rightarrow> bool \<Rightarrow> bool \<Rightarrow> jsstring \<Rightarrow> match list \<Rightarrow> loopState" where
  "runLoop knownWords showTooltips hasFindCompound originalText uniqueMatches =
     (if hasFindCompound \<and> uniqueMatches \<noteq> [] then
        fold (compoundStep knownWords showTooltips originalText uniqueMatches)
             [0 ..< length uniqueMatches] initialLoopState
      else
        fold (plainStep knownWords showTooltips originalText) uniqueMatches initialLoopState)"

definition addRemainingText :: "jsstring \<Rightarrow> loopState \<Rightarrow> node list" where
  "addRemainingText originalText st =
     (if lastIndex st < length originalText
      then fragment st @ [TextNode (jsSlice originalText (lastIndex st) (length originalText))]
      else fragment st)"

text \<open>
  The fragment that \<open>replaceTextNode\<close> builds, from the collected matches to the remaining
  text. \<open>hasFindCompound\<close> says whether \<open>window.findCompound\<close> is a function. \<open>None\<close>: the
  collecting loop does not return.
\<close>

definition buildFragment :: "vocabulary \<Rightarrow> bool \<Rightarrow> bool \<Rightarrow> jsstring \<Rightarrow> regexp list \<Rightarrow> node list option" where
  "buildFragment knownWords showTooltips hasFindCompound originalText patterns =
     (case resolveMatches patterns originalText of
        None \<Rightarrow> None
      | Some uniqueMatches \<Rightarrow>
          Some (addRemainingText originalText
                  (runLoop knownWords showTooltips hasFindCompound originalText uniqueMatches)))"

text \<open>
  The fragment of \<open>highlightKnownWords\<close> (practice mode): every match of the one pattern
  becomes a \<open>span\<close> with the matched text.
\<close>

definition knownSpan :: "jsstring \<Rightarrow> element" where
  "knownSpan matchedWord =
     \<lparr>tagName = ''SPAN'',
      className = ''lang-learner-known'',
      attributes = [(''data-known'', ascii ''true'')],
      textContent = matchedWord,
      cssText = ''background-color: rgba(76, 175, 80, 0.2); padding: 0 2px; border-radius: 2px;'',
      title = ''Known word'',
      tooltip = None\<rparr>"

definition highlightStep :: "jsstring \<Rightarrow> match \<Rightarrow> loopState \<Rightarrow> loopState" where
  "highlightStep originalText m st =
     \<lparr>fragment = appendTextBefore originalText (index m) st @ [ElementNode (knownSpan (mtext m))],
      lastIndex = endIndex m,
      processedIndices = processedIndices st\<rparr>"

definition buildHighlightFragment :: "jsstring \<Rightarrow> regexp \<Rightarrow> node list option" where
  "buildHighlightFragment originalText pattern =
     (case execAll pattern originalText 0 of
        None \<Rightarrow> None
      | Some matches \<Rightarrow>
          Some (addRemainingText originalText
                  (fold (highlightStep originalText) matches initialLoopState)))"

section \<open>Walking the text nodes\<close>

text \<open>
  How a call ends: it returns a state, it throws with the module state as it then is, or
  it does not return.
\<close>

datatype 'a outcome = Returns 'a | Throws exn 'a | Hangs

text \<open>
  The module state that the rewriter changes: the set \<open>processedNodes\<close>, the pattern cache,
  and the document, of which the model keeps the calls
  \<open>textNode.parentNode.replaceChild(fragment, textNode)\<close> made so far, each as the replaced
  node and the children of the fragment put in its place.
\<close>

record contentState =
  processedNodes :: "nat set"
  cache :: patternCache
  replaced :: "(nat \<times> node list) list"

text \<open>
  A text node under the root of a walk, with what the program reads from it: its
  identity (the key of the \<open>WeakSet\<close>), its \<open>textContent\<close>, the parent it has in the
  document, and the chain \<open>parentElement\<close>, \<open>parentElement.parentElement\<close>, ... of elements
  above it, the nearest first.
\<close>

record textNode =
  nodeId :: nat
  nodeText :: jsstring
  parentId :: nat
  ancestors :: "element list"

text \<open>
  \<open>textNode.parentNode\<close>: the parent, until a \<open>replaceChild\<close> call has put a fragment in the
  place of the node; from then on the node is outside the document and the property is
  \<open>null\<close>.
\<close>

definition parentNode :: "contentState \<Rightarrow> textNode \<Rightarrow> nat option" where
  "parentNode st node =
     (if nodeId node \<in> set (map fst (replaced st)) then None else Some (parentId node))"

definition SKIP_TAGS :: "string list" where
  "SKIP_TAGS = [''SCRIPT'', ''STYLE'', ''NOSCRIPT'', ''IFRAME'', ''OBJECT'', ''EMBED'',
                ''INPUT'', ''TEXTAREA'', ''SELECT'', ''BUTTON'', ''CODE'', ''PRE'']"

definition SKIP_ATTRIBUTES :: "string list" where
  "SKIP_ATTRIBUTES = [''data-translated'', ''contenteditable'']"

definition hasAttribute :: "element \<Rightarrow> string \<Rightarrow> bool" where
  "hasAttribute e name \<longleftrightarrow> name \<in> fst ` set (attributes e)"

text \<open>\<open>String.prototype.trim\<close> strips white space and line terminators at both ends.\<close>

definition isWhiteSpace :: "code_unit \<Rightarrow> bool" where
  "isWhiteSpace c \<longleftrightarrow>
     c \<in> set [0x0009, 0x000A, 0x000B, 0x000C, 0x000D, 0x0020, 0x00A0, 0x1680,
              0x2028, 0x2029, 0x202F, 0x205F, 0x3000, 0xFEFF]
     \<or> (0x2000 \<le> c \<and> c \<le> 0x200A)"

definition trim :: "jsstring \<Rightarrow> jsstring" where
  "trim s = rev (dropWhile isWhiteSpace (rev (dropWhile isWhiteSpace s)))"

datatype filterResult = FILTER_ACCEPT | FILTER_REJECT

text \<open>The loop \<open>while (parent) { ... parent = parent.parentElement; }\<close> of the node filter.\<close>

fun skippedByAncestor :: "element list \<Rightarrow> bool" where
  "skippedByAncestor [] = False"
| "skippedByAncestor (parent # higher) =
     (if tagName parent \<in> set SKIP_TAGS then True
      else if list_ex (hasAttribute parent) SKIP_ATTRIBUTES then True
      else skippedByAncestor higher)"

definition acceptNode :: "textNode \<Rightarrow> filterResult" where
  "acceptNode node =
     (if trim (nodeText node) = [] then FILTER_REJECT
      else if skippedByAncestor (ancestors node) then FILTER_REJECT
      else FILTER_ACCEPT)"

text \<open>
  \<open>walkTextNodes(root, callback)\<close>; \<open>nodes\<close> are the text nodes under \<open>root\<close>, in document
  order, as they are when the walk starts. The loop
  \<^verbatim>\<open>while (node = walker.nextNode()) { callback(node); }\<close>
  hands the nodes that the filter accepts to the callback one after the other.
  \<open>nextNode()\<close> goes on from the node it returned last. When the callback has replaced
  that node, the node is outside the document: it has no child, no sibling and no
  parent, the walker finds no next node from it and returns \<open>null\<close>, and the loop ends
  there. An exception of the callback leaves the loop.
\<close>

fun walkTextNodes ::
  "(textNode \<Rightarrow> contentState \<Rightarrow> contentState outcome) \<Rightarrow> textNode list \<Rightarrow> contentState
     \<Rightarrow> contentState outcome" where
  "walkTextNodes callback [] st = Returns st"
| "walkTextNodes callback (node # nodes) st =
     (if acceptNode node = FILTER_ACCEPT then
        (case callback node st of
           Returns st' \<Rightarrow>
             if parentNode st' node = None then Returns st'
             else walkTextNodes callback nodes st'
         | Throws e st' \<Rightarrow> Throws e st'
         | Hangs \<Rightarrow> Hangs)
      else walkTextNodes callback nodes st)"

section \<open>The rewriter\<close>

record settings =
  autoTranslate :: bool
  showTooltips :: bool

text \<open>
  \<open>replaceTextNode\<close>: the fragment is built, and the last statement reads
  \<open>textNode.parentNode\<close> and calls \<open>replaceChild\<close> on it, which throws a \<open>TypeError\<close> when
  the parent is \<open>null\<close>. There is no test of the parent in front of it.
\<close>

definition replaceTextNode ::
  "vocabulary \<Rightarrow> settings \<Rightarrow> bool \<Rightarrow> textNode \<Rightarrow> jsstring \<Rightarrow> regexp list \<Rightarrow> contentState \<Rightarrow> contentState outcome" where
  "replaceTextNode knownWords settings hasFindCompound textNode originalText patterns st =
     (case buildFragment knownWords (showTooltips settings) hasFindCompound originalText patterns of
        None \<Rightarrow> Hangs
      | Some frag \<Rightarrow>
          (case parentNode st textNode of
             None \<Rightarrow> Throws TypeError st
           | Some parent \<Rightarrow> Returns (st\<lparr>replaced := replaced st @ [(nodeId textNode, frag)]\<rparr>)))"

definition highlightKnownWords :: "textNode \<Rightarrow> jsstring \<Rightarrow> regexp \<Rightarrow> contentState \<Rightarrow> contentState outcome" where
  "highlightKnownWords textNode originalText pattern st =
     (case buildHighlightFragment originalText pattern of
        None \<Rightarrow> Hangs
      | Some frag \<Rightarrow>
          (case parentNode st textNode of
             None \<Rightarrow> Throws TypeError st
           | Some parent \<Rightarrow> Returns (st\<lparr>replaced := replaced st @ [(nodeId textNode, frag)]\<rparr>)))"

definition hasMatches :: "regexp list \<Rightarrow> jsstring \<Rightarrow> bool" where
  "hasMatches patterns originalText = list_ex (\<lambda>pattern. test pattern originalText) patterns"

text \<open>The callback that \<open>translateKnownWords\<close> and \<open>processSubtree\<close> hand to the walk.\<close>

definition learnCallback ::
  "vocabulary \<Rightarrow> settings \<Rightarrow> bool \<Rightarrow> regexp list \<Rightarrow> textNode \<Rightarrow> contentState \<Rightarrow> contentState outcome" where
  "learnCallback knownWords settings hasFindCompound patterns textNode st =
     (if nodeId textNode \<in> processedNodes st then Returns st
      else
        let originalText = nodeText textNode
        in if \<not> hasMatches patterns originalText then Returns st
           else (case replaceTextNode knownWords settings hasFindCompound textNode originalText patterns st of
                   Returns st' \<Rightarrow>
                     Returns (st'\<lparr>processedNodes := insert (nodeId textNode) (processedNodes st')\<rparr>)
                 | Throws e st' \<Rightarrow> Throws e st'
                 | Hangs \<Rightarrow> Hangs))"

text \<open>
  \<open>processSubtree(root, mode)\<close>, called with an element as \<open>root\<close> and with the mode that
  \<open>determineMode\<close> returned; \<open>subtree\<close> are the text nodes under \<open>root\<close>.
\<close>

definition processSubtree ::
  "vocabulary \<Rightarrow> settings \<Rightarrow> bool \<Rightarrow> string \<Rightarrow> textNode list \<Rightarrow> contentState \<Rightarrow> contentState outcome" where
  "processSubtree knownWords settings hasFindCompound mode subtree st =
     (if \<not> autoTranslate settings then Returns st
      else if mode = ''learn'' then
        (case getCompiledPatterns knownWords (cache st) of
           Inl e \<Rightarrow> Throws e st
         | Inr (patterns, cache') \<Rightarrow>
             if patterns = [] then Returns (st\<lparr>cache := cache'\<rparr>)
             else walkTextNodes (learnCallback knownWords settings hasFindCompound patterns)
                    subtree (st\<lparr>cache := cache'\<rparr>))
      else Returns st)"

text \<open>\<open>translateKnownWords\<close> (learn mode, the whole page); \<open>body\<close> are the text nodes under \<open>document.body\<close>.\<close>

definition translateKnownWords ::
  "vocabulary \<Rightarrow> settings \<Rightarrow> bool \<Rightarrow> textNode list \<Rightarrow> contentState \<Rightarrow> contentState outcome" where
  "translateKnownWords knownWords settings hasFindCompound body st =
     (if objectKeys knownWords = [] then Returns st
      else (case getCompiledPatterns knownWords (cache st) of
              Inl e \<Rightarrow> Throws e st
            | Inr (patterns, cache') \<Rightarrow>
                walkTextNodes (learnCallback knownWords settings hasFindCompound patterns)
                  body (st\<lparr>cache := cache'\<rparr>)))"

text \<open>
  \<open>translateUnknownWords\<close> (practice mode). \<open>originalText.match(pattern)\<close> with a global
  pattern is \<open>null\<close> exactly when the pattern has no match in the text.
\<close>

definition practiceCallback :: "regexp \<Rightarrow> textNode \<Rightarrow> contentState \<Rightarrow> contentState outcome" where
  "practiceCallback pattern textNode st =
     (if nodeId textNode \<in> processedNodes st then Returns st
      else
        let originalText = nodeText textNode
        in if test pattern originalText then
             (case highlightKnownWords textNode originalText pattern st of
                Returns st' \<Rightarrow>
                  Returns (st'\<lparr>processedNodes := insert (nodeId textNode) (processedNodes st')\<rparr>)
              | Throws e st' \<Rightarrow> Throws e st'
              | Hangs \<Rightarrow> Hangs)
           else Returns st)"

definition translateUnknownWords :: "vocabulary \<Rightarrow> textNode list \<Rightarrow> contentState \<Rightarrow> contentState outcome" where
  "translateUnknownWords knownWords body st =
     (if knownWords = [] then Returns st
      else (case practicePattern knownWords of
              Inl e \<Rightarrow> Throws e st
            | Inr pattern \<Rightarrow> walkTextNodes (practiceCallback pattern) body st))"

section \<open>The mutation observer\<close>

text \<open>
  A mutation record, with what the callback reads: \<open>mutation.type\<close> and, of each added
  node, its identity and its \<open>nodeType\<close>.
\<close>

record addedNode =
  addedId :: nat
  nodeType :: nat

definition ELEMENT_NODE :: nat where "ELEMENT_NODE = 1"

definition TEXT_NODE :: nat where "TEXT_NODE = 3"

record mutationRecord =
  mutationType :: string
  addedNodes :: "addedNode list"

text \<open>\<open>Set.prototype.add\<close>; a \<open>Set\<close> iterates in insertion order.\<close>

definition setAdd :: "nat list \<Rightarrow> nat \<Rightarrow> nat list" where
  "setAdd s x = (if x \<in> set s then s else s @ [x])"

text \<open>
  The first half of the observer's callback: \<open>const mutatedRoots = new Set()\<close> is created
  anew in every call and filled from the records of this call.
\<close>

definition collectMutatedRoots :: "nat set \<Rightarrow> mutationRecord list \<Rightarrow> nat list" where
  "collectMutatedRoots processed mutations =
     fold (\<lambda>mutation roots.
             if mutationType mutation = ''childList'' \<and> addedNodes mutation \<noteq> [] then
               fold (\<lambda>node roots.
                       if nodeType node = ELEMENT_NODE \<and> addedId node \<notin> processed
                       then setAdd roots (addedId node) else roots)
                    (addedNodes mutation) roots
             else roots)
          mutations []"

text \<open>
  The state of the observer: the module state, the pending timer
  \<open>setupMutationObserver.timeout\<close> with the set \<open>mutatedRoots\<close> that its function has
  captured, and, for the statements below, the roots handed to \<open>processSubtree\<close> so far.
\<close>

record observerState =
  content :: contentState
  pendingTimeout :: "nat list option"
  subtreeCalls :: "nat list"

text \<open>
  The second half of the callback: \<open>clearTimeout\<close> drops the pending timer, and with it
  the set its function had captured; \<open>setTimeout\<close> arms a new one that captures the set
  of this call.
\<close>

definition observerCallback :: "mutationRecord list \<Rightarrow> observerState \<Rightarrow> observerState" where
  "observerCallback mutations st =
     (let mutatedRoots = collectMutatedRoots (processedNodes (content st)) mutations
      in if mutatedRoots \<noteq> [] then st\<lparr>pendingTimeout := Some mutatedRoots\<rparr> else st)"

text \<open>
  The function of the timer: \<open>mutatedRoots.forEach(root => processSubtree(root, mode))\<close>.
  The tree of the page is an input: \<open>textNodesUnder doc root\<close> are the text nodes under
  the element \<open>root\<close>, in document order, in the document as the replacements made so
  far, which are part of \<open>doc\<close>, have left it.
\<close>

fun processRoots ::
  "vocabulary \<Rightarrow> settings \<Rightarrow> bool \<Rightarrow> string \<Rightarrow> (contentState \<Rightarrow> nat \<Rightarrow> textNode list) \<Rightarrow> nat list
     \<Rightarrow> observerState \<Rightarrow> observerState outcome" where
  "processRoots knownWords settings hasFindCompound mode textNodesUnder [] st = Returns st"
| "processRoots knownWords settings hasFindCompound mode textNodesUnder (root # roots) st =
     (case processSubtree knownWords settings hasFindCompound mode
             (textNodesUnder (content st) root) (content st) of
        Returns c \<Rightarrow>
          processRoots knownWords settings hasFindCompound mode textNodesUnder roots
            (st\<lparr>content := c, subtreeCalls := subtreeCalls st @ [root]\<rparr>)
      | Throws e c \<Rightarrow> Throws e (st\<lparr>content := c, subtreeCalls := subtreeCalls st @ [root]\<rparr>)
      | Hangs \<Rightarrow> Hangs)"

definition timeoutFires ::
  "vocabulary \<Rightarrow> settings \<Rightarrow> bool \<Rightarrow> string \<Rightarrow> (contentState \<Rightarrow> nat \<Rightarrow> textNode list)
     \<Rightarrow> observerState \<Rightarrow> observerState outcome" where
  "timeoutFires knownWords settings hasFindCompound mode textNodesUnder st =
     (case pendingTimeout st of
        None \<Rightarrow> Returns st
      | Some mutatedRoots \<Rightarrow>
          processRoots knownWords settings hasFindCompound mode textNodesUnder mutatedRoots
            (st\<lparr>pendingTimeout := None\<rparr>))"

text \<open>
  The record that the host delivers for \<open>replaceChild(fragment, textNode)\<close>: one
  \<open>childList\<close> record whose added nodes are the children of the fragment, under the
  identities \<open>ids\<close> that the new nodes have.
\<close>

definition fragmentMutation :: "nat list \<Rightarrow> node list \<Rightarrow> mutationRecord" where
  "fragmentMutation ids frag =
     \<lparr>mutationType = ''childList'',
      addedNodes =
        map (\<lambda>(i, n). \<lparr>addedId = i,
                       nodeType = (case n of TextNode t \<Rightarrow> TEXT_NODE | ElementNode e \<Rightarrow> ELEMENT_NODE)\<rparr>)
            (zip ids frag)\<rparr>"

section \<open>Notions used in the statements\<close>

text \<open>What every collected match object looks like.\<close>

definition wellFormed :: "jsstring \<Rightarrow> match \<Rightarrow> bool" where
  "wellFormed s m \<longleftrightarrow>
     index m < endIndex m \<and> endIndex m \<le> length s \<and> mtext m = jsSlice s (index m) (endIndex m)"

text \<open>The pattern that a chunk of keys compiles to.\<close>

definition learnPattern :: "jsstring list \<Rightarrow> regexp" where
  "learnPattern chunk = \<lparr>alternatives = chunk, wordBoundary = True, ignoreCase = True\<rparr>"

text \<open>
  The list of translations that \<open>translateUnknownWords\<close> makes its pattern from, and the
  pattern that a list of words compiles to there.
\<close>

definition translationsOf :: "vocabulary \<Rightarrow> jsstring list" where
  "translationsOf knownWords = map (\<lambda>(w, d). translation d) knownWords"

definition knownPattern :: "jsstring list \<Rightarrow> regexp" where
  "knownPattern words = \<lparr>alternatives = words, wordBoundary = False, ignoreCase = False\<rparr>"

text \<open>The cache as the module initialises it: both variables \<open>null\<close>.\<close>

definition emptyCache :: patternCache where
  "emptyCache = \<lparr>cachedPatterns = None, cachedKnownWordsHash = None\<rparr>"

text \<open>
  What a child of the fragment stands for. A text node stands for the piece of the
  original text that it repeats. A generated unit stands for a piece that runs from the
  start of one resolved match to the end of the same or of a later resolved match; a
  unit for a single match carries that piece as its \<open>data-original\<close>, and only a unit of
  the compound class stands for a piece that spans more than one match.
\<close>

definition standsFor :: "jsstring \<Rightarrow> match list \<Rightarrow> jsstring \<Rightarrow> node \<Rightarrow> bool" where
  "standsFor originalText uniqueMatches piece n =
     (case n of
        TextNode t \<Rightarrow> t = piece
      | ElementNode e \<Rightarrow>
          (\<exists>i j. i \<le> j \<and> j < length uniqueMatches \<and>
             piece = jsSlice originalText (index (uniqueMatches ! i)) (endIndex (uniqueMatches ! j)) \<and>
             (i = j \<longrightarrow> map_of (attributes e) ''data-original'' = Some piece) \<and>
             (i < j \<longrightarrow> className e = ''lang-learner-translated lang-learner-compound'')))"

text \<open>The fragment built so far repeats or replaces, piece by piece, the text up to an offset.\<close>

definition tiles :: "jsstring \<Rightarrow> match list \<Rightarrow> nat \<Rightarrow> node list \<Rightarrow> bool" where
  "tiles originalText uniqueMatches upTo frag \<longleftrightarrow>
     upTo \<le> length originalText \<and>
     (\<exists>pieces. concat pieces = take upTo originalText \<and>
        list_all2 (standsFor originalText uniqueMatches) pieces frag)"

text \<open>
  The invariant of both loops before round \<open>k\<close>: the fragment covers the text up to
  \<open>lastIndex\<close>, and no match still to be handled starts before \<open>lastIndex\<close>.
\<close>

definition loopInvariant :: "jsstring \<Rightarrow> match list \<Rightarrow> nat \<Rightarrow> loopState \<Rightarrow> bool" where
  "loopInvariant text ums k st \<longleftrightarrow>
     tiles text ums (lastIndex st) (fragment st) \<and>
     (\<forall>j. k \<le> j \<and> j < length ums \<and> j \<notin> processedIndices st \<longrightarrow> lastIndex st \<le> index (ums ! j))"



text \<open>The fragment that \<open>highlightKnownWords\<close> builds for a node.\<close>

definition highlightFragmentOf :: "regexp \<Rightarrow> textNode \<Rightarrow> node list" where
  "highlightFragmentOf pattern n =
     (case buildHighlightFragment (nodeText n) pattern of
        None \<Rightarrow> []
      | Some frag \<Rightarrow> frag)"

text \<open>The nodes that \<open>walkTextNodes\<close> hands to the callback, in the order of the calls.\<close>

fun visitedNodes ::
  "(textNode \<Rightarrow> contentState \<Rightarrow> contentState outcome) \<Rightarrow> textNode list \<Rightarrow> contentState
     \<Rightarrow> textNode list" where
  "visitedNodes callback [] st = []"
| "visitedNodes callback (node # nodes) st =
     (if acceptNode node = FILTER_ACCEPT then
        node # (case callback node st of
                  Returns st' \<Rightarrow>
                    if parentNode st' node = None then []
                    else visitedNodes callback nodes st'
                | Throws e st' \<Rightarrow> []
                | Hangs \<Rightarrow> [])
      else visitedNodes callback nodes st)"

text \<open>The text of a fragment: the text content of its children, one after the other.\<close>

definition fragmentText :: "node list \<Rightarrow> jsstring" where
  "fragmentText frag = concat (map (\<lambda>n. case n of TextNode t \<Rightarrow> t | ElementNode e \<Rightarrow> textContent e) frag)"

text \<open>The generated units of a fragment, in order.\<close>

definition units :: "node list \<Rightarrow> element list" where
  "units frag = concat (map (\<lambda>n. case n of TextNode t \<Rightarrow> [] | ElementNode e \<Rightarrow> [e]) frag)"

text \<open>
  A word stands in a text at an offset: code unit for code unit, wherever that is; or,
  as a learn-mode pattern asks, up to the case folding of the \<open>i\<close> flag and between two
  word boundaries.
\<close>

definition occursAt :: "jsstring \<Rightarrow> jsstring \<Rightarrow> nat \<Rightarrow> bool" where
  "occursAt w s i \<longleftrightarrow> i + length w \<le> length s \<and> jsSlice s i (i + length w) = w"

definition occursAsWord :: "jsstring \<Rightarrow> jsstring \<Rightarrow> nat \<Rightarrow> bool" where
  "occursAsWord w s i \<longleftrightarrow>
     i + length w \<le> length s \<and>
     map canonicalize (jsSlice s i (i + length w)) = map canonicalize w \<and>
     atBoundary s i \<and> atBoundary s (i + length w)"

text \<open>A child of a fragment is a text node or an element that carries \<open>data-translated\<close>.\<close>

definition generated :: "node \<Rightarrow> bool" where
  "generated n \<longleftrightarrow> (case n of TextNode t \<Rightarrow> True | ElementNode e \<Rightarrow> hasAttribute e ''data-translated'')"

section \<open>Example vocabulary, nodes and pages\<close>

text \<open>
  A \<open>div\<close> without attributes, the one-entry vocabulary \<open>hello\<close>, the settings with
  \<open>autoTranslate\<close> on, the module state right after loading, and the cache after the
  patterns of that vocabulary have been compiled.
\<close>

definition plainDiv :: element where
  "plainDiv = \<lparr>tagName = ''DIV'', className = [], attributes = [], textContent = [],
               cssText = [], title = [], tooltip = None\<rparr>"

definition helloWords :: vocabulary where
  "helloWords = [(ascii ''hello'', \<lparr>translation = [0x4F60, 0x597D], pinyin = None\<rparr>)]"

definition settingsOn :: settings where
  "settingsOn = \<lparr>autoTranslate = True, showTooltips = False\<rparr>"

definition freshState :: contentState where
  "freshState = \<lparr>processedNodes = {}, cache = emptyCache, replaced = []\<rparr>"

definition helloCache :: patternCache where
  "helloCache = \<lparr>cachedPatterns = Some [learnPattern [ascii ''hello'']],
                 cachedKnownWordsHash = Some (ascii ''hello'')\<rparr>"

text \<open>
  A text node under the \<open>div\<close>, and the unit that the rewriter generates for a match of
  \<open>hello\<close>.
\<close>

definition textUnder :: "nat \<Rightarrow> nat \<Rightarrow> string \<Rightarrow> textNode" where
  "textUnder parent i s = \<lparr>nodeId = i, nodeText = ascii s, parentId = parent, ancestors = [plainDiv]\<rparr>"

definition helloSpan :: "string \<Rightarrow> element" where
  "helloSpan s = translatedSpan False (ascii s) (Own \<lparr>translation = [0x4F60, 0x597D], pinyin = None\<rparr>)"

text \<open>
  An observer with no pending timer, the record for one added element, and a page in
  which the elements 10 and 20 hold one text node each. In the pages of this section
  the text nodes under the named elements are the same before and after a replacement
  elsewhere.
\<close>

definition idleObserver :: observerState where
  "idleObserver = \<lparr>content = freshState, pendingTimeout = None, subtreeCalls = []\<rparr>"

definition elementAdded :: "nat \<Rightarrow> mutationRecord" where
  "elementAdded i = \<lparr>mutationType = ''childList'', addedNodes = [\<lparr>addedId = i, nodeType = ELEMENT_NODE\<rparr>]\<rparr>"

definition twoDivs :: "contentState \<Rightarrow> nat \<Rightarrow> textNode list" where
  "twoDivs doc root =
     (if root = 10 then [textUnder 10 11 ''hello from the first'']
      else if root = 20 then [textUnder 20 21 ''hello from the second'']
      else [])"

text \<open>
  The page after the text node 2, \<open>hello there\<close>, has been rewritten: the generated
  unit is the element 10 and holds the text node 100.
\<close>

definition insideSpan :: "contentState \<Rightarrow> nat \<Rightarrow> textNode list" where
  "insideSpan doc root =
     (if root = 10
      then [\<lparr>nodeId = 100, nodeText = [0x4F60, 0x597D], parentId = 10,
              ancestors = [helloSpan ''hello'', plainDiv]\<rparr>]
      else [])"

text \<open>
  A vocabulary whose one word is its own translation, its pattern of practice mode, and
  the page after the text node 2, \<open>a taxi here\<close>, has been highlighted in practice mode:
  the unit is the element 10 and holds the text node 100.
\<close>

definition taxiWords :: vocabulary where
  "taxiWords = [(ascii ''taxi'', \<lparr>translation = ascii ''taxi'', pinyin = None\<rparr>)]"

definition taxiPattern :: regexp where
  "taxiPattern = \<lparr>alternatives = [ascii ''taxi''], wordBoundary = False, ignoreCase = False\<rparr>"

definition taxiFragment :: "node list" where
  "taxiFragment = [TextNode (ascii ''a ''), ElementNode (knownSpan (ascii ''taxi'')), TextNode (ascii '' here'')]"

definition insideKnown :: "contentState \<Rightarrow> nat \<Rightarrow> textNode list" where
  "insideKnown doc root =
     (if root = 10
      then [\<lparr>nodeId = 100, nodeText = ascii ''taxi'', parentId = 10,
              ancestors = [knownSpan (ascii ''taxi''), plainDiv]\<rparr>]
      else [])"

definition afterHighlight :: observerState where
  "afterHighlight =
     \<lparr>content = \<lparr>processedNodes = {2}, cache = emptyCache, replaced = [(2, taxiFragment)]\<rparr>,
      pendingTimeout = None, subtreeCalls = []\<rparr>"

definition afterRewrite :: observerState where
  "afterRewrite =
     \<lparr>content = \<lparr>processedNodes = {2}, cache = helloCache,
                  replaced = [(2, [ElementNode (helloSpan ''hello''), TextNode (ascii '' there'')])]\<rparr>,
      pendingTimeout = None, subtreeCalls = []\<rparr>"

section \<open>Facts about \<open>exec\<close> and the collecting loop\<close>

lemma matchAt_alt:
  assumes "matchAt r s i = Some e"
  shows "\<exists>alt\<in>set (alternatives r).
           e = i + length alt \<and> altMatches r s i alt \<and> (wordBoundary r \<longrightarrow> atBoundary s i)"
proof -
  from assms obtain alt where f: "find (altMatches r s i) (alternatives r) = Some alt"
    and e: "e = i + length alt" and b: "wordBoundary r \<longrightarrow> atBoundary s i"
    by (auto simp: matchAt_def split: if_splits option.splits)
  from f have "altMatches r s i alt" "alt \<in> set (alternatives r)"
    by (auto simp: find_Some_iff)
  with e b show ?thesis by blast
qed

lemma firstMatch_matchAt:
  "firstMatch r s js = Some (i, e) \<Longrightarrow> matchAt r s i = Some e"
  by (induction js) (auto split: option.splits)

lemma exec_alt:
  assumes "exec r s k = Some (i, e)"
  shows "\<exists>alt\<in>set (alternatives r).
           e = i + length alt \<and> altMatches r s i alt \<and> (wordBoundary r \<longrightarrow> atBoundary s i)"
  using firstMatch_matchAt[OF assms[unfolded exec_def]] by (rule matchAt_alt)

lemma exec_progress:
  assumes "exec r s k = Some (i, e)" "[] \<notin> set (alternatives r)"
  shows "i < e"
proof -
  from exec_alt[OF assms(1)] obtain alt
    where "alt \<in> set (alternatives r)" "e = i + length alt" by blast
  with assms(2) show ?thesis by (cases alt) auto
qed

text \<open>A pattern none of whose alternatives is empty makes the loop return.\<close>

lemma execAll_returns:
  "[] \<notin> set (alternatives r) \<Longrightarrow> \<exists>ms. execAll r s k = Some ms"
proof (induction r s k rule: execAll.induct)
  case (1 r s k)
  show ?case
  proof (cases "exec r s k")
    case None
    then show ?thesis by (simp add: execAll.simps)
  next
    case (Some ie)
    obtain i e where ie: "ie = (i, e)" by (cases ie)
    with Some have ex: "exec r s k = Some (i, e)" by simp
    from exec_progress[OF ex "1.prems"] have lt: "\<not> e \<le> i" by simp
    from "1.IH"[OF Some ie[symmetric] lt "1.prems"]
    obtain ms where "execAll r s e = Some ms" by blast
    with ex lt show ?thesis by (simp add: execAll.simps[of r s k])
  qed
qed

lemma execAll_wellFormed:
  "execAll r s k = Some ms \<Longrightarrow> m \<in> set ms \<Longrightarrow> wellFormed s m \<and> k \<le> index m"
proof (induction r s k arbitrary: ms rule: execAll.induct)
  case (1 r s k)
  show ?case
  proof (cases "exec r s k")
    case None
    with "1.prems" show ?thesis by (simp add: execAll.simps[of r s k])
  next
    case (Some ie)
    obtain i e where ie: "ie = (i, e)" by (cases ie)
    with Some have ex: "exec r s k = Some (i, e)" by simp
    from "1.prems"(1) ex have lt: "\<not> e \<le> i"
      by (auto simp: execAll.simps[of r s k] split: if_splits)
    from "1.prems"(1) ex lt obtain ms' where ms': "execAll r s e = Some ms'"
      and ms: "ms = \<lparr>mtext = jsSlice s i e, index = i, endIndex = e\<rparr> # ms'"
      by (auto simp: execAll.simps[of r s k] split: option.splits)
    from exec_bounds[OF ex] have b: "k \<le> i" "e \<le> length s" by simp_all
    show ?thesis
    proof (cases "m \<in> set ms'")
      case True
      from "1.IH"[OF Some ie[symmetric] lt ms' True] b lt show ?thesis by simp
    next
      case False
      with "1.prems"(2) ms have "m = \<lparr>mtext = jsSlice s i e, index = i, endIndex = e\<rparr>" by simp
      with b lt show ?thesis by (simp add: wellFormed_def)
    qed
  qed
qed

lemma collectMatches_returns:
  "\<forall>p\<in>set ps. [] \<notin> set (alternatives p) \<Longrightarrow> \<exists>ms. collectMatches ps s = Some ms"
proof (induction ps)
  case Nil
  show ?case by simp
next
  case (Cons p ps)
  then obtain rest where "collectMatches ps s = Some rest" by auto
  moreover from Cons.prems execAll_returns[of p s 0]
  obtain ms where "execAll p s 0 = Some ms" by auto
  ultimately show ?case by simp
qed

lemma collectMatches_wellFormed:
  "collectMatches ps s = Some ms \<Longrightarrow> m \<in> set ms \<Longrightarrow> wellFormed s m"
proof (induction ps arbitrary: ms)
  case Nil
  then show ?case by simp
next
  case (Cons p ps)
  from Cons.prems(1) obtain a b
    where a: "execAll p s 0 = Some a" and b: "collectMatches ps s = Some b"
      and ms: "ms = a @ b" by (auto split: option.splits)
  from Cons.prems(2) ms have "m \<in> set a \<or> m \<in> set b" by simp
  then show ?case using execAll_wellFormed[OF a] Cons.IH[OF b] by blast
qed

section \<open>Facts about the overlap filter\<close>

lemma removeOverlaps_prefix: "\<exists>zs. removeOverlaps u rest = u @ zs"
proof (induction rest arbitrary: u)
  case Nil
  show ?case by simp
next
  case (Cons c rest)
  show ?case using Cons.IH[of u] Cons.IH[of "u @ [c]"] by auto
qed

lemma removeOverlaps_subseq: "subseq (removeOverlaps u rest) (u @ rest)"
proof (induction rest arbitrary: u)
  case Nil
  show ?case by simp
next
  case (Cons c rest)
  have "subseq (removeOverlaps u rest) (u @ c # rest)"
    using Cons.IH[of u] by (metis list_emb_Cons subseq_append_iff)
  with Cons.IH[of "u @ [c]"] show ?case by simp
qed

lemma subseq_sorted_wrt:
  assumes "subseq ys xs" "sorted_wrt P xs"
  shows "sorted_wrt P ys"
  using assms
proof (induction rule: list_emb.induct)
  case (list_emb_Nil ys)
  then show ?case by simp
next
  case (list_emb_Cons xs ys y)
  then show ?case by simp
next
  case (list_emb_Cons2 x y xs ys)
  then have "set xs \<subseteq> set ys" using list_emb_set[of "(=)" xs ys] by auto
  with list_emb_Cons2 show ?case by auto
qed

lemma last_endIndex_max:
  assumes "sorted_wrt (\<lambda>a b. endIndex a \<le> index b) u"
    and "\<forall>m\<in>set u. index m \<le> endIndex m" and "a \<in> set u"
  shows "endIndex a \<le> endIndex (last u)"
  using assms
proof (induction u rule: rev_induct)
  case Nil
  then show ?case by simp
next
  case (snoc x xs)
  then show ?case by (auto simp: sorted_wrt_append intro: order_trans)
qed

lemma removeOverlaps_apart:
  assumes "sorted_wrt (\<lambda>a b. endIndex a \<le> index b) u"
    and "\<forall>m\<in>set (u @ rest). index m \<le> endIndex m"
  shows "sorted_wrt (\<lambda>a b. endIndex a \<le> index b) (removeOverlaps u rest)"
  using assms
proof (induction rest arbitrary: u)
  case Nil
  then show ?case by simp
next
  case (Cons c rest)
  show ?case
  proof (cases "u = [] \<or> endIndex (last u) \<le> index c")
    case True
    have "sorted_wrt (\<lambda>a b. endIndex a \<le> index b) (u @ [c])"
    proof (cases "u = []")
      case True
      then show ?thesis by simp
    next
      case False
      with True have l: "endIndex (last u) \<le> index c" by simp
      have "\<forall>a\<in>set u. endIndex a \<le> index c"
      proof
        fix a assume "a \<in> set u"
        with last_endIndex_max[OF Cons.prems(1), of a] Cons.prems(2)
        have "endIndex a \<le> endIndex (last u)" by simp
        with l show "endIndex a \<le> index c" by simp
      qed
      with Cons.prems(1) show ?thesis by (simp add: sorted_wrt_append)
    qed
    moreover have "\<forall>m\<in>set ((u @ [c]) @ rest). index m \<le> endIndex m"
      using Cons.prems(2) by simp
    ultimately have "sorted_wrt (\<lambda>a b. endIndex a \<le> index b) (removeOverlaps (u @ [c]) rest)"
      by (rule Cons.IH)
    with True show ?thesis by simp
  next
    case False
    have "\<forall>m\<in>set (u @ rest). index m \<le> endIndex m" using Cons.prems(2) by simp
    with Cons.prems(1) have "sorted_wrt (\<lambda>a b. endIndex a \<le> index b) (removeOverlaps u rest)"
      by (rule Cons.IH)
    with False show ?thesis by simp
  qed
qed

lemma removeOverlaps_dropped:
  assumes "m \<in> set rest" and "m \<notin> set (removeOverlaps u rest)"
    and "\<forall>a\<in>set u. \<forall>b\<in>set rest. index a \<le> index b" and "sorted (map index rest)"
  shows "\<exists>k\<in>set (removeOverlaps u rest). index k \<le> index m \<and> index m < endIndex k"
  using assms
proof (induction rest arbitrary: u)
  case Nil
  then show ?case by simp
next
  case (Cons c rest)
  show ?case
  proof (cases "u = [] \<or> endIndex (last u) \<le> index c")
    case True
    then have eq: "removeOverlaps u (c # rest) = removeOverlaps (u @ [c]) rest" by simp
    obtain zs where zs: "removeOverlaps (u @ [c]) rest = (u @ [c]) @ zs"
      using removeOverlaps_prefix by blast
    with eq Cons.prems(2) have "m \<noteq> c" by auto
    with Cons.prems(1) have "m \<in> set rest" by simp
    moreover have "m \<notin> set (removeOverlaps (u @ [c]) rest)" using Cons.prems(2) eq by simp
    moreover have "\<forall>a\<in>set (u @ [c]). \<forall>b\<in>set rest. index a \<le> index b"
      using Cons.prems(3,4) by auto
    moreover have "sorted (map index rest)" using Cons.prems(4) by simp
    ultimately show ?thesis unfolding eq by (rule Cons.IH)
  next
    case False
    then have eq: "removeOverlaps u (c # rest) = removeOverlaps u rest" by simp
    show ?thesis
    proof (cases "m \<in> set rest")
      case True
      moreover have "m \<notin> set (removeOverlaps u rest)" using Cons.prems(2) eq by simp
      moreover have "\<forall>a\<in>set u. \<forall>b\<in>set rest. index a \<le> index b"
        using Cons.prems(3) by auto
      moreover have "sorted (map index rest)" using Cons.prems(4) by simp
      ultimately show ?thesis unfolding eq by (rule Cons.IH)
    next
      case outside: False
      with Cons.prems(1) have mc: "m = c" by simp
      from False have ne: "u \<noteq> []" and lt: "index c < endIndex (last u)" by auto
      obtain zs where zs: "removeOverlaps u rest = u @ zs"
        using removeOverlaps_prefix by blast
      from ne have "last u \<in> set u" by simp
      with zs have "last u \<in> set (removeOverlaps u rest)" by simp
      moreover from \<open>last u \<in> set u\<close> Cons.prems(3) have "index (last u) \<le> index c" by simp
      ultimately show ?thesis unfolding eq using lt mc by blast
    qed
  qed
qed

lemma uniqueMatchesOf_head:
  assumes "ms \<noteq> []"
  shows "uniqueMatchesOf ms \<noteq> [] \<and> hd (uniqueMatchesOf ms) = hd (sort_key index ms)"
proof -
  from assms have "sort_key index ms \<noteq> []" by (metis length_0_conv length_sort)
  then obtain x xs where x: "sort_key index ms = x # xs" by (cases "sort_key index ms") auto
  obtain zs where "removeOverlaps [x] xs = [x] @ zs" using removeOverlaps_prefix by blast
  with x show ?thesis by (simp add: uniqueMatchesOf_def)
qed

lemma uniqueMatchesOf_props:
  assumes "\<forall>m\<in>set ms. index m \<le> endIndex m"
  shows "sorted (map index (uniqueMatchesOf ms))"
    and "sorted_wrt (\<lambda>a b. endIndex a \<le> index b) (uniqueMatchesOf ms)"
    and "subseq (uniqueMatchesOf ms) (sort_key index ms)"
    and "\<forall>m\<in>set ms. m \<in> set (uniqueMatchesOf ms) \<or>
           (\<exists>k\<in>set (uniqueMatchesOf ms). index k \<le> index m \<and> index m < endIndex k)"
proof -
  let ?srt = "sort_key index ms"
  have s: "sorted (map index ?srt)" by simp
  show sub: "subseq (uniqueMatchesOf ms) ?srt"
    using removeOverlaps_subseq[of "[]" ?srt] by (simp add: uniqueMatchesOf_def)
  from s have "sorted_wrt (\<lambda>a b. index a \<le> index b) ?srt"
    by (simp add: sorted_map)
  from subseq_sorted_wrt[OF sub this] show "sorted (map index (uniqueMatchesOf ms))"
    by (simp add: sorted_map)
  from assms show "sorted_wrt (\<lambda>a b. endIndex a \<le> index b) (uniqueMatchesOf ms)"
    using removeOverlaps_apart[of "[]" ?srt] by (simp add: uniqueMatchesOf_def)
  show "\<forall>m\<in>set ms. m \<in> set (uniqueMatchesOf ms) \<or>
           (\<exists>k\<in>set (uniqueMatchesOf ms). index k \<le> index m \<and> index m < endIndex k)"
  proof
    fix m assume "m \<in> set ms"
    then have "m \<in> set ?srt" by simp
    from removeOverlaps_dropped[OF this, of "[]"] s
    show "m \<in> set (uniqueMatchesOf ms) \<or>
           (\<exists>k\<in>set (uniqueMatchesOf ms). index k \<le> index m \<and> index m < endIndex k)"
      unfolding uniqueMatchesOf_def by auto
  qed
qed

section \<open>Claims about the resolved match spans\<close>

text \<open>
  Claim C1. For every text and every list of matchers, the span list that
  \<open>replaceTextNode\<close> resolves for the block is sorted by start offset and its spans are
  mutually non-overlapping; every kept span is one of the collected matches, unchanged
  (no trimming), in the order of the sorted list; the match with the earliest start is
  always kept; and a collected match is dropped only when it starts before the end of a
  kept match that starts no later. The loop fails to return only when some matcher has
  an empty alternative.
\<close>

theorem resolveMatches_sorted_disjoint:
  "(resolveMatches patterns s = None \<longrightarrow> (\<exists>p\<in>set patterns. [] \<in> set (alternatives p))) \<and>
   (\<forall>u. resolveMatches patterns s = Some u \<longrightarrow>
      sorted (map index u) \<and>
      sorted_wrt (\<lambda>a b. endIndex a \<le> index b) u \<and>
      (\<exists>ms. collectMatches patterns s = Some ms \<and>
         subseq u (sort_key index ms) \<and>
         (ms \<noteq> [] \<longrightarrow> u \<noteq> [] \<and> hd u = hd (sort_key index ms)) \<and>
         (\<forall>m\<in>set ms. m \<in> set u \<or>
            (\<exists>k\<in>set u. index k \<le> index m \<and> index m < endIndex k))))"
proof (intro conjI impI allI)
  assume "resolveMatches patterns s = None"
  then have "collectMatches patterns s = None" by (simp add: resolveMatches_def)
  with collectMatches_returns[of patterns s]
  show "\<exists>p\<in>set patterns. [] \<in> set (alternatives p)" by auto
next
  fix u assume "resolveMatches patterns s = Some u"
  then obtain ms where ms: "collectMatches patterns s = Some ms" and u: "u = uniqueMatchesOf ms"
    by (auto simp: resolveMatches_def)
  have wf: "\<forall>m\<in>set ms. index m \<le> endIndex m"
  proof
    fix m assume "m \<in> set ms"
    from collectMatches_wellFormed[OF ms this] show "index m \<le> endIndex m"
      by (simp add: wellFormed_def)
  qed
  note p = uniqueMatchesOf_props[OF wf]
  {
    show "sorted (map index u)" using p(1) u by simp
  next
    show "sorted_wrt (\<lambda>a b. endIndex a \<le> index b) u" using p(2) u by simp
  next
    show "\<exists>ms. collectMatches patterns s = Some ms \<and>
         subseq u (sort_key index ms) \<and>
         (ms \<noteq> [] \<longrightarrow> u \<noteq> [] \<and> hd u = hd (sort_key index ms)) \<and>
         (\<forall>m\<in>set ms. m \<in> set u \<or>
            (\<exists>k\<in>set u. index k \<le> index m \<and> index m < endIndex k))"
      using ms p(3,4) u uniqueMatchesOf_head[of ms] by blast
  }
qed

text \<open>
  The theorem at the text \<open>new york\<close> with one matcher for \<open>new\<close> and one for
  \<open>new york\<close>: both match at offset 0, and the match of the first matcher is the one kept.
\<close>

theorem resolveMatches_sorted_disjoint_witness:
  "resolveMatches
     [\<lparr>alternatives = [ascii ''new''], wordBoundary = True, ignoreCase = True\<rparr>,
      \<lparr>alternatives = [ascii ''new york''], wordBoundary = True, ignoreCase = True\<rparr>]
     (ascii ''New York'')
   = Some [\<lparr>mtext = ascii ''New'', index = 0, endIndex = 3\<rparr>] \<and>
   sorted (map index [\<lparr>mtext = ascii ''New'', index = 0, endIndex = 3\<rparr>]) \<and>
   sorted_wrt (\<lambda>a b. endIndex a \<le> index b) [\<lparr>mtext = ascii ''New'', index = 0, endIndex = 3\<rparr>]"
proof -
  let ?ps = "[\<lparr>alternatives = [ascii ''new''], wordBoundary = True, ignoreCase = True\<rparr>,
      \<lparr>alternatives = [ascii ''new york''], wordBoundary = True, ignoreCase = True\<rparr>]"
  have e: "resolveMatches ?ps (ascii ''New York'')
             = Some [\<lparr>mtext = ascii ''New'', index = 0, endIndex = 3\<rparr>]"
    by code_simp
  from resolveMatches_sorted_disjoint[of ?ps "ascii ''New York''"] e
  show ?thesis by blast
qed

section \<open>Facts about the pattern compiler\<close>

lemma syntax_members: "backslash \<in> set syntaxChars" "bar \<in> set syntaxChars" "rparen \<in> set syntaxChars"
  by (simp_all add: syntaxChars_def backslash_def bar_def rparen_def)

lemma parseGroup_plain:
  assumes "c \<notin> set syntaxChars" "tail \<noteq> []"
  shows "parseGroup (c # tail) cur alts = parseGroup tail (cur @ [c]) alts"
proof -
  from assms(2) obtain d ds where "tail = d # ds" by (cases tail) auto
  moreover from assms(1) syntax_members have "c \<noteq> backslash" "c \<noteq> bar" "c \<noteq> rparen" by auto
  ultimately show ?thesis using assms(1) by simp
qed

lemma parseGroup_escaped:
  assumes "c \<in> set syntaxChars"
  shows "parseGroup (backslash # c # tail) cur alts = parseGroup tail (cur @ [c]) alts"
  using assms by simp

lemma parseGroup_escapeRegex:
  "tail \<noteq> [] \<Longrightarrow> parseGroup (escapeRegex w @ tail) cur alts = parseGroup tail (cur @ w) alts"
proof (induction w arbitrary: cur)
  case Nil
  show ?case by (simp add: escapeRegex_def)
next
  case (Cons c w)
  have e: "escapeRegex (c # w) = (if c \<in> set syntaxChars then [backslash, c] else [c]) @ escapeRegex w"
    by (simp add: escapeRegex_def)
  show ?case
  proof (cases "c \<in> set syntaxChars")
    case True
    then have "parseGroup (escapeRegex (c # w) @ tail) cur alts = parseGroup (escapeRegex w @ tail) (cur @ [c]) alts"
      by (simp add: e del: parseGroup.simps add: parseGroup_escaped)
    with Cons.IH[OF Cons.prems, of "cur @ [c]"] show ?thesis by simp
  next
    case False
    from Cons.prems have "escapeRegex w @ tail \<noteq> []" by simp
    from parseGroup_plain[OF False this, of cur alts]
    have "parseGroup (escapeRegex (c # w) @ tail) cur alts = parseGroup (escapeRegex w @ tail) (cur @ [c]) alts"
      using False by (simp add: e)
    with Cons.IH[OF Cons.prems, of "cur @ [c]"] show ?thesis by simp
  qed
qed

lemma parseGroup_close: "parseGroup (rparen # rest) cur alts = Some (alts @ [cur], rest)"
  by (cases rest) (simp_all add: rparen_def backslash_def bar_def)

lemma parseGroup_bar: "tail \<noteq> [] \<Longrightarrow> parseGroup (bar # tail) cur alts = parseGroup tail [] (alts @ [cur])"
  by (cases tail) (simp_all add: backslash_def bar_def)

lemma parseGroup_join:
  "parseGroup (join [bar] (map escapeRegex (w # ws)) @ rparen # rest) cur alts
     = Some (alts @ (cur @ w) # ws, rest)"
proof (induction ws arbitrary: w cur alts)
  case Nil
  show ?case by (simp add: parseGroup_escapeRegex parseGroup_close)
next
  case (Cons v ws)
  have "parseGroup (join [bar] (map escapeRegex (w # v # ws)) @ rparen # rest) cur alts
      = parseGroup (bar # (join [bar] (map escapeRegex (v # ws)) @ rparen # rest)) (cur @ w) alts"
    using parseGroup_escapeRegex[of "bar # (join [bar] (map escapeRegex (v # ws)) @ rparen # rest)" w cur alts]
    by simp
  also have "\<dots> = parseGroup (join [bar] (map escapeRegex (v # ws)) @ rparen # rest) [] (alts @ [cur @ w])"
    by (rule parseGroup_bar) simp
  also have "\<dots> = Some ((alts @ [cur @ w]) @ ([] @ v) # ws, rest)"
    by (rule Cons.IH)
  finally show ?case by simp
qed

lemma newRegExp_learn:
  assumes "ws \<noteq> []"
  shows "newRegExp (wordAnchor @ [lparen] @ join [bar] (map escapeRegex ws) @ [rparen] @ wordAnchor) (ascii ''gi'')
     = Inr \<lparr>alternatives = ws, wordBoundary = True, ignoreCase = True\<rparr>"
proof -
  from assms obtain w ws' where ws: "ws = w # ws'" by (cases ws) auto
  have "parseGroup (join [bar] (map escapeRegex (w # ws')) @ rparen # wordAnchor) [] [] = Some ([] @ ([] @ w) # ws', wordAnchor)"
    by (rule parseGroup_join)
  then show ?thesis unfolding ws
    by (simp add: newRegExp_def wordAnchor_def ascii_def)
qed

lemma newRegExp_practice:
  assumes "ws \<noteq> []"
  shows "newRegExp ([lparen] @ join [bar] (map escapeRegex ws) @ [rparen]) (ascii ''g'')
     = Inr \<lparr>alternatives = ws, wordBoundary = False, ignoreCase = False\<rparr>"
proof -
  from assms obtain w ws' where ws: "ws = w # ws'" by (cases ws) auto
  have "parseGroup (join [bar] (map escapeRegex (w # ws')) @ rparen # []) [] [] = Some ([] @ ([] @ w) # ws', [])"
    by (rule parseGroup_join)
  then show ?thesis unfolding ws
    by (simp add: newRegExp_def wordAnchor_def ascii_def lparen_def backslash_def)
qed

lemma chunksOf_nonempty: "chunk \<in> set (chunksOf ws) \<Longrightarrow> chunk \<noteq> []"
proof (induction ws rule: chunksOf.induct)
  case (1 ws)
  show ?case
  proof (cases "ws = []")
    case True
    with "1.prems" show ?thesis by (simp add: chunksOf.simps)
  next
    case False
    with "1.prems" have "chunk = take CHUNK_SIZE ws \<or> chunk \<in> set (chunksOf (drop CHUNK_SIZE ws))"
      by (simp add: chunksOf.simps[of ws])
    then show ?thesis using "1.IH"[OF False] False by (auto simp: CHUNK_SIZE_def)
  qed
qed

lemma chunksOf_map: "chunksOf (map f ws) = map (map f) (chunksOf ws)"
proof (induction ws rule: chunksOf.induct)
  case (1 ws)
  show ?case
  proof (cases "ws = []")
    case True
    then show ?thesis by (simp add: chunksOf.simps)
  next
    case False
    with "1.IH" show ?thesis
      by (simp add: chunksOf.simps[of ws] chunksOf.simps[of "map f ws"] take_map drop_map)
  qed
qed

lemma concat_chunksOf: "concat (chunksOf ws) = ws"
proof (induction ws rule: chunksOf.induct)
  case (1 ws)
  show ?case
  proof (cases "ws = []")
    case True
    then show ?thesis by (simp add: chunksOf.simps)
  next
    case False
    with "1.IH" show ?thesis by (simp add: chunksOf.simps[of ws])
  qed
qed

lemma compileChunks_escaped:
  "\<forall>chunk\<in>set chunks. chunk \<noteq> [] \<Longrightarrow>
   compileChunks (map (map escapeRegex) chunks) = Inr (map learnPattern chunks)"
proof (induction chunks)
  case Nil
  show ?case by simp
next
  case (Cons chunk chunks)
  then have "chunk \<noteq> []" by simp
  from newRegExp_learn[OF this] Cons show ?case by (simp add: learnPattern_def)
qed

lemma compile_wordList:
  "compileChunks (chunksOf (map escapeRegex wordList)) = Inr (map learnPattern (chunksOf wordList))"
  using compileChunks_escaped[of "chunksOf wordList"] chunksOf_nonempty
  by (auto simp: chunksOf_map)

section \<open>Facts about reordering the matchers\<close>

lemma filter_key_singleton:
  assumes "distinct (map f xs)"
  shows "length (filter (\<lambda>x. f x = k) xs) \<le> 1"
  using assms by (induction xs) (auto simp: filter_empty_conv image_iff)

lemma mset_short_eq:
  assumes "mset as = mset bs" "length as \<le> 1"
  shows "as = bs"
proof (cases as)
  case Nil
  with assms show ?thesis by simp
next
  case (Cons a as')
  with assms(2) have "as = [a]" by simp
  with assms(1) have "mset bs = {#a#}" by simp
  then have "bs = [a]" by simp
  with \<open>as = [a]\<close> show ?thesis by simp
qed

lemma collectMatches_returns_iff:
  "collectMatches ps s \<noteq> None \<longleftrightarrow> (\<forall>p\<in>set ps. execAll p s 0 \<noteq> None)"
  by (induction ps) (auto split: option.splits)

lemma collectMatches_mset:
  "collectMatches ps s = Some ms \<Longrightarrow>
   mset ms = sum_list (map (\<lambda>p. case execAll p s 0 of None \<Rightarrow> {#} | Some m \<Rightarrow> mset m) ps)"
  by (induction ps arbitrary: ms) (auto split: option.splits)

lemma collectMatches_reorder:
  assumes "collectMatches ps s = Some ms" "mset ps' = mset ps"
  shows "\<exists>ms'. collectMatches ps' s = Some ms' \<and> mset ms' = mset ms"
proof -
  let ?g = "\<lambda>p. case execAll p s 0 of None \<Rightarrow> {#} | Some m \<Rightarrow> mset m"
  from assms(1) have "\<forall>p\<in>set ps. execAll p s 0 \<noteq> None"
    using collectMatches_returns_iff[of ps s] by simp
  moreover from assms(2) have "set ps' = set ps" by (rule mset_eq_setD)
  ultimately have "collectMatches ps' s \<noteq> None"
    using collectMatches_returns_iff[of ps' s] by simp
  then obtain ms' where ms': "collectMatches ps' s = Some ms'" by auto
  have "sum_list (map ?g ps') = sum_mset (mset (map ?g ps'))"
    by (simp only: sum_mset_sum_list)
  also have "\<dots> = sum_mset (mset (map ?g ps))" by (simp only: mset_map assms(2))
  also have "\<dots> = sum_list (map ?g ps)" by (simp only: sum_mset_sum_list)
  finally have "mset ms' = mset ms"
    using collectMatches_mset[OF ms'] collectMatches_mset[OF assms(1)] by simp
  with ms' show ?thesis by blast
qed

lemma sort_key_distinct_mset:
  assumes "mset ys = mset xs" "distinct (map f xs)"
  shows "sort_key f ys = sort_key f xs"
proof (rule properties_for_sort_key)
  show "mset (sort_key f xs) = mset ys" using assms(1) by simp
  show "sorted (map f (sort_key f xs))" by simp
  fix k assume "k \<in> set (sort_key f xs)"
  have a: "filter (\<lambda>x. f k = f x) (sort_key f xs) = filter (\<lambda>x. f k = f x) xs"
    using sort_key_stable[of f "f k" xs] by (simp add: eq_commute)
  have "mset (filter (\<lambda>x. f k = f x) xs) = mset (filter (\<lambda>x. f k = f x) ys)"
    using assms(1) by simp
  moreover have "length (filter (\<lambda>x. f k = f x) xs) \<le> 1"
    using filter_key_singleton[OF assms(2), of "f k"] by (simp add: eq_commute)
  ultimately have "filter (\<lambda>x. f k = f x) xs = filter (\<lambda>x. f k = f x) ys"
    by (rule mset_short_eq)
  with a show "filter (\<lambda>x. f k = f x) (sort_key f xs) = filter (\<lambda>x. f k = f x) ys" by simp
qed

lemma find_filter_hd: "find P xs = (case filter P xs of [] \<Rightarrow> None | x # _ \<Rightarrow> Some x)"
  by (induction xs) auto

lemma removeOverlaps_first_of_start:
  assumes "sorted_wrt (\<lambda>a b. endIndex a \<le> index b) u"
    and "\<forall>m\<in>set (u @ rest). index m < endIndex m"
    and "removeOverlaps u rest = u @ zs" and "k \<in> set zs"
  shows "find (\<lambda>m. index m = index k) rest = Some k"
  using assms
proof (induction rest arbitrary: u zs)
  case Nil
  then show ?case by simp
next
  case (Cons c rest)
  have wf: "\<forall>m\<in>set (u @ c # rest). index m \<le> endIndex m"
    using Cons.prems(2) by (meson less_imp_le_nat)
  have apart: "sorted_wrt (\<lambda>a b. endIndex a \<le> index b) (removeOverlaps u (c # rest))"
    using removeOverlaps_apart[OF Cons.prems(1) wf] .
  show ?case
  proof (cases "u = [] \<or> endIndex (last u) \<le> index c")
    case True
    then have eq: "removeOverlaps u (c # rest) = removeOverlaps (u @ [c]) rest" by simp
    obtain zs' where zs': "removeOverlaps (u @ [c]) rest = (u @ [c]) @ zs'"
      using removeOverlaps_prefix by blast
    with eq Cons.prems(3) have zs: "zs = c # zs'" by simp
    show ?thesis
    proof (cases "k \<in> set zs'")
      case False
      with zs Cons.prems(4) show ?thesis by simp
    next
      case k: True
      from apart eq zs' have "sorted_wrt (\<lambda>a b. endIndex a \<le> index b) (u @ [c] @ zs')" by simp
      with k have "endIndex c \<le> index k" by (auto simp: sorted_wrt_append)
      moreover from Cons.prems(2) have "index c < endIndex c" by simp
      ultimately have ne: "index c \<noteq> index k" by simp
      have "sorted_wrt (\<lambda>a b. endIndex a \<le> index b) (u @ [c])"
        using apart eq zs' by (simp add: sorted_wrt_append)
      moreover have "\<forall>m\<in>set ((u @ [c]) @ rest). index m < endIndex m" using Cons.prems(2) by simp
      ultimately have "find (\<lambda>m. index m = index k) rest = Some k"
        using zs' k by (rule Cons.IH)
      with ne show ?thesis by simp
    qed
  next
    case False
    then have eq: "removeOverlaps u (c # rest) = removeOverlaps u rest" by simp
    from False have ne: "u \<noteq> []" and lt: "index c < endIndex (last u)" by auto
    from eq Cons.prems(3) have r: "removeOverlaps u rest = u @ zs" by simp
    from ne have "last u \<in> set u" by simp
    with apart eq r Cons.prems(4) have "endIndex (last u) \<le> index k"
      by (auto simp: sorted_wrt_append)
    with lt have nek: "index c \<noteq> index k" by simp
    have "\<forall>m\<in>set (u @ rest). index m < endIndex m" using Cons.prems(2) by simp
    with Cons.prems(1) have "find (\<lambda>m. index m = index k) rest = Some k"
      using r Cons.prems(4) by (rule Cons.IH)
    with nek show ?thesis by simp
  qed
qed

lemma uniqueMatchesOf_first_collected:
  assumes "\<forall>m\<in>set ms. index m < endIndex m" "k \<in> set (uniqueMatchesOf ms)"
  shows "find (\<lambda>m. index m = index k) ms = Some k"
proof -
  have "removeOverlaps [] (sort_key index ms) = [] @ uniqueMatchesOf ms"
    by (simp add: uniqueMatchesOf_def)
  moreover have "\<forall>m\<in>set ([] @ sort_key index ms). index m < endIndex m" using assms(1) by simp
  moreover have "sorted_wrt (\<lambda>a b. endIndex a \<le> index b) []" by simp
  ultimately have "find (\<lambda>m. index m = index k) (sort_key index ms) = Some k"
    using assms(2) removeOverlaps_first_of_start by blast
  then show ?thesis
    by (simp add: find_filter_hd sort_key_stable)
qed

text \<open>
  Claim C8, as amended. For a fixed list of matchers, every span that survives overlap
  resolution is the first collected match among those with its start offset: at equal
  start offsets the matcher that comes first in the list wins, whatever the lengths. So
  the resolved list does depend on the order of the matchers; it is the same for every
  order of the same matchers when no two collected matches start at the same offset.
\<close>

theorem uniqueMatches_chunk_order:
  assumes "collectMatches ps s = Some ms"
  shows "(\<forall>k\<in>set (uniqueMatchesOf ms). find (\<lambda>m. index m = index k) ms = Some k) \<and>
         (\<forall>ps'. mset ps' = mset ps \<and> distinct (map index ms) \<longrightarrow>
                 resolveMatches ps' s = resolveMatches ps s)"
proof (intro conjI ballI allI impI)
  fix k assume "k \<in> set (uniqueMatchesOf ms)"
  moreover have "\<forall>m\<in>set ms. index m < endIndex m"
    using collectMatches_wellFormed[OF assms] by (simp add: wellFormed_def)
  ultimately show "find (\<lambda>m. index m = index k) ms = Some k"
    using uniqueMatchesOf_first_collected by blast
next
  fix ps' assume a: "mset ps' = mset ps \<and> distinct (map index ms)"
  with collectMatches_reorder[OF assms, of ps'] obtain ms'
    where ms': "collectMatches ps' s = Some ms'" "mset ms' = mset ms" by blast
  from sort_key_distinct_mset[OF ms'(2), of index] a
  have "sort_key index ms' = sort_key index ms" by simp
  with ms' assms show "resolveMatches ps' s = resolveMatches ps s"
    by (simp add: resolveMatches_def uniqueMatchesOf_def)
qed

text \<open>
  The claim as stated fails. The matchers for \<open>new\<close> and for \<open>new york\<close> both match
  \<open>New York\<close> at offset 0, and swapping them changes the resolved list. With the
  program's own compilation of the vocabulary having both keys, the shorter key stands
  first in the alternation and wins, so the result is not longest-match-preferred.
\<close>

theorem uniqueMatches_chunk_order_counterexample:
  "resolveMatches [learnPattern [ascii ''new''], learnPattern [ascii ''new york'']] (ascii ''New York'')
     = Some [\<lparr>mtext = ascii ''New'', index = 0, endIndex = 3\<rparr>] \<and>
   resolveMatches [learnPattern [ascii ''new york''], learnPattern [ascii ''new'']] (ascii ''New York'')
     = Some [\<lparr>mtext = ascii ''New York'', index = 0, endIndex = 8\<rparr>] \<and>
   (case getCompiledPatterns
           [(ascii ''new york'', \<lparr>translation = ascii ''NY'', pinyin = None\<rparr>),
            (ascii ''new'', \<lparr>translation = ascii ''neu'', pinyin = None\<rparr>)]
           \<lparr>cachedPatterns = None, cachedKnownWordsHash = None\<rparr> of
      Inl e \<Rightarrow> None
    | Inr (patterns, c) \<Rightarrow> resolveMatches patterns (ascii ''New York''))
     = Some [\<lparr>mtext = ascii ''New'', index = 0, endIndex = 3\<rparr>]"
  by code_simp

theorem uniqueMatches_chunk_order_witness:
  "collectMatches [learnPattern [ascii ''hello''], learnPattern [ascii ''world'']] (ascii ''Hello, world!'')
     = Some [\<lparr>mtext = ascii ''Hello'', index = 0, endIndex = 5\<rparr>,
             \<lparr>mtext = ascii ''world'', index = 7, endIndex = 12\<rparr>] \<and>
   resolveMatches [learnPattern [ascii ''world''], learnPattern [ascii ''hello'']] (ascii ''Hello, world!'')
     = resolveMatches [learnPattern [ascii ''hello''], learnPattern [ascii ''world'']] (ascii ''Hello, world!'')"
proof -
  let ?ps = "[learnPattern [ascii ''hello''], learnPattern [ascii ''world'']]"
  let ?ps' = "[learnPattern [ascii ''world''], learnPattern [ascii ''hello'']]"
  let ?ms = "[\<lparr>mtext = ascii ''Hello'', index = 0, endIndex = 5\<rparr>,
             \<lparr>mtext = ascii ''world'', index = 7, endIndex = 12\<rparr>]"
  have c: "collectMatches ?ps (ascii ''Hello, world!'') = Some ?ms" by code_simp
  have m: "mset ?ps' = mset ?ps" by simp
  have d: "distinct (map index ?ms)" by simp
  from uniqueMatches_chunk_order[OF c] m d
  have "resolveMatches ?ps' (ascii ''Hello, world!'') = resolveMatches ?ps (ascii ''Hello, world!'')"
    by blast
  with c show ?thesis by simp
qed

section \<open>Claims about the pattern cache\<close>

lemma sorted_keys_unique:
  assumes "distinct (objectKeys kw1)" "distinct (objectKeys kw2)"
    and "set (objectKeys kw1) = set (objectKeys kw2)"
  shows "sort (objectKeys kw1) = sort (objectKeys kw2)"
  by (rule sorted_distinct_set_unique) (simp_all add: assms)

lemma getCompiledPatterns_cases:
  "getCompiledPatterns kw c =
     (if cachedPatterns c \<noteq> None \<and> cachedKnownWordsHash c = Some (knownWordsHash kw)
      then Inr (the (cachedPatterns c), c)
      else Inr (map learnPattern (chunksOf (sort (objectKeys kw))),
                \<lparr>cachedPatterns = Some (map learnPattern (chunksOf (sort (objectKeys kw)))),
                 cachedKnownWordsHash = Some (knownWordsHash kw)\<rparr>))"
  by (auto simp: getCompiledPatterns_def knownWordsHash_def compile_wordList Let_def split: option.splits)

lemma getCompiledPatterns_returns:
  "\<exists>ps c1. getCompiledPatterns kw c = Inr (ps, c1) \<and>
      cachedPatterns c1 = Some ps \<and> cachedKnownWordsHash c1 = Some (knownWordsHash kw)"
proof (cases "cachedPatterns c \<noteq> None \<and> cachedKnownWordsHash c = Some (knownWordsHash kw)")
  case True
  then obtain cached where "cachedPatterns c = Some cached" by auto
  with True show ?thesis by (simp add: getCompiledPatterns_cases)
next
  case False
  then show ?thesis by (simp add: getCompiledPatterns_cases)
qed

text \<open>
  Claim C7. The signature \<open>knownWordsHash\<close> is computed from the sorted key list, so two
  vocabularies with the same key set have the same signature whatever the order of their
  entries. When the cache holds patterns under the current signature, they are returned
  as they are and the cache is left as it is. Two rebuilds from the same key set, run
  from the same cache or one after the other, return the same pattern list, which
  therefore resolves the same spans on every text. The function never throws.
\<close>

theorem getCompiledPatterns_signature:
  assumes "distinct (objectKeys kw1)" and "distinct (objectKeys kw2)"
    and "set (objectKeys kw1) = set (objectKeys kw2)"
  shows "knownWordsHash kw1 = knownWordsHash kw2 \<and>
    (\<forall>cached. cachedPatterns c = Some cached \<and> cachedKnownWordsHash c = Some (knownWordsHash kw1)
        \<longrightarrow> getCompiledPatterns kw1 c = Inr (cached, c)) \<and>
    (\<exists>ps1 c1. getCompiledPatterns kw1 c = Inr (ps1, c1) \<and>
        getCompiledPatterns kw2 c = Inr (ps1, c1) \<and>
        getCompiledPatterns kw2 c1 = Inr (ps1, c1) \<and>
        (\<forall>ps2 c2 s. getCompiledPatterns kw2 c = Inr (ps2, c2) \<or> getCompiledPatterns kw2 c1 = Inr (ps2, c2)
            \<longrightarrow> resolveMatches ps2 s = resolveMatches ps1 s))"
proof -
  have srt: "sort (objectKeys kw1) = sort (objectKeys kw2)"
    using assms by (rule sorted_keys_unique)
  then have h: "knownWordsHash kw1 = knownWordsHash kw2" by (simp add: knownWordsHash_def)
  have hit: "\<forall>cached. cachedPatterns c = Some cached \<and> cachedKnownWordsHash c = Some (knownWordsHash kw1)
        \<longrightarrow> getCompiledPatterns kw1 c = Inr (cached, c)"
    by (simp add: getCompiledPatterns_cases)
  from getCompiledPatterns_returns[of kw1 c] obtain ps1 c1
    where r1: "getCompiledPatterns kw1 c = Inr (ps1, c1)"
      and c1: "cachedPatterns c1 = Some ps1" "cachedKnownWordsHash c1 = Some (knownWordsHash kw1)"
    by blast
  have "getCompiledPatterns kw2 c = getCompiledPatterns kw1 c"
    by (simp add: getCompiledPatterns_cases h srt)
  with r1 have r2: "getCompiledPatterns kw2 c = Inr (ps1, c1)" by simp
  from c1 h have r3: "getCompiledPatterns kw2 c1 = Inr (ps1, c1)"
    by (simp add: getCompiledPatterns_cases)
  from r2 r3 have "\<forall>ps2 c2 s. getCompiledPatterns kw2 c = Inr (ps2, c2) \<or> getCompiledPatterns kw2 c1 = Inr (ps2, c2)
            \<longrightarrow> resolveMatches ps2 s = resolveMatches ps1 s" by auto
  with h hit r1 r2 r3 show ?thesis by blast
qed

theorem getCompiledPatterns_signature_witness:
  "knownWordsHash
     [(ascii ''world'', \<lparr>translation = ascii ''monde'', pinyin = None\<rparr>),
      (ascii ''hello'', \<lparr>translation = ascii ''salut'', pinyin = None\<rparr>)]
   = knownWordsHash
     [(ascii ''hello'', \<lparr>translation = ascii ''salut'', pinyin = None\<rparr>),
      (ascii ''world'', \<lparr>translation = ascii ''monde'', pinyin = None\<rparr>)]"
proof -
  let ?a = "[(ascii ''world'', \<lparr>translation = ascii ''monde'', pinyin = None\<rparr>),
      (ascii ''hello'', \<lparr>translation = ascii ''salut'', pinyin = None\<rparr>)]"
  let ?b = "[(ascii ''hello'', \<lparr>translation = ascii ''salut'', pinyin = None\<rparr>),
      (ascii ''world'', \<lparr>translation = ascii ''monde'', pinyin = None\<rparr>)]"
  have d1: "distinct (objectKeys ?a)" by (simp add: objectKeys_def ascii_def)
  have d2: "distinct (objectKeys ?b)" by (simp add: objectKeys_def ascii_def)
  have e: "set (objectKeys ?a) = set (objectKeys ?b)" by (auto simp add: objectKeys_def)
  from getCompiledPatterns_signature[OF d1 d2 e, of emptyCache] show ?thesis by blast
qed

text \<open>
  A remark outside the claim: the signature joins the keys with \<open>|\<close> and a key may
  itself contain \<open>|\<close>, so two different key sets can have one signature.
\<close>

lemma knownWordsHash_collision:
  "knownWordsHash [([0x61, bar, 0x62], d)] = knownWordsHash [([0x61], d1), ([0x62], d2)]"
  by (simp add: knownWordsHash_def objectKeys_def)

lemma practicePattern_eq:
  assumes "knownWords \<noteq> []"
  shows "practicePattern knownWords = Inr (knownPattern (translationsOf knownWords))"
  using newRegExp_practice[of "map (\<lambda>(w, d). translation d) knownWords"] assms
  by (simp add: practicePattern_def Let_def knownPattern_def translationsOf_def)

lemma chunk_subset:
  assumes "chunk \<in> set (chunksOf ws)"
  shows "set chunk \<subseteq> set ws"
proof -
  from assms have "set chunk \<subseteq> set (concat (chunksOf ws))" by auto
  then show ?thesis by (simp add: concat_chunksOf)
qed

section \<open>Claims about the compound resolver\<close>

lemma CompoundWords_truthy: "map_of CompoundWords k = Some t \<Longrightarrow> t \<noteq> []"
proof -
  have "list_all (\<lambda>(k, t). t \<noteq> []) CompoundWords" by code_simp
  moreover assume "map_of CompoundWords k = Some t"
  then have "(k, t) \<in> set CompoundWords" by (rule map_of_SomeD)
  ultimately show ?thesis by (auto simp: list_all_iff)
qed

lemma compound_values_truthy: "getProperty CompoundWords k = Some v \<Longrightarrow> truthy v"
  by (auto simp: getProperty_def truthy_def dest: CompoundWords_truthy split: option.splits if_splits)


lemma findCompound_two:
  "findCompound words s 2 =
     (if s + 2 < length words \<and> getProperty CompoundWords (joinWords (take 3 (drop s words))) \<noteq> None
      then map_option (\<lambda>t. \<lparr>compound = joinWords (take 3 (drop s words)), compoundTranslation = t, compoundLength = 3\<rparr>)
             (getProperty CompoundWords (joinWords (take 3 (drop s words))))
      else if s + 1 < length words \<and> getProperty CompoundWords (joinWords (take 2 (drop s words))) \<noteq> None
      then map_option (\<lambda>t. \<lparr>compound = joinWords (take 2 (drop s words)), compoundTranslation = t, compoundLength = 2\<rparr>)
             (getProperty CompoundWords (joinWords (take 2 (drop s words))))
      else None)"
  by (auto simp: findCompound_def numeral_2_eq_2 numeral_3_eq_3 Let_def
           dest: compound_values_truthy split: option.splits)





section \<open>Claims about the replacement fragment\<close>

lemma take_jsSlice: "a \<le> b \<Longrightarrow> take a t @ jsSlice t a b = take b t"
proof -
  assume "a \<le> b"
  then have "take b t = take (a + (b - a)) t" by simp
  also have "\<dots> = take a t @ take (b - a) (drop a t)" by (rule take_add)
  finally show ?thesis by (simp add: jsSlice_def)
qed

lemma tiles_text:
  assumes "tiles text ums a frag" "a \<le> b" "b \<le> length text"
  shows "tiles text ums b (frag @ [TextNode (jsSlice text a b)])"
proof -
  from assms(1) obtain pieces where p: "concat pieces = take a text"
    "list_all2 (standsFor text ums) pieces frag" by (auto simp: tiles_def)
  have "concat (pieces @ [jsSlice text a b]) = take b text"
    using p(1) take_jsSlice[OF assms(2)] by simp
  moreover have "list_all2 (standsFor text ums) (pieces @ [jsSlice text a b]) (frag @ [TextNode (jsSlice text a b)])"
    using p(2) by (simp add: list_all2_appendI standsFor_def)
  ultimately show ?thesis using assms(3) unfolding tiles_def by blast
qed

lemma tiles_before:
  assumes "tiles text ums (lastIndex st) (fragment st)" "lastIndex st \<le> a" "a \<le> length text"
  shows "tiles text ums a (appendTextBefore text a st)"
proof (cases "lastIndex st < a")
  case True
  with tiles_text[OF assms] show ?thesis by (simp add: appendTextBefore_def)
next
  case False
  with assms(2) have "lastIndex st = a" by simp
  with assms(1) False show ?thesis by (simp add: appendTextBefore_def)
qed

lemma tiles_unit:
  assumes "tiles text ums a frag" "a \<le> b" "b \<le> length text"
    and "standsFor text ums (jsSlice text a b) (ElementNode e)"
  shows "tiles text ums b (frag @ [ElementNode e])"
proof -
  from assms(1) obtain pieces where p: "concat pieces = take a text"
    "list_all2 (standsFor text ums) pieces frag" by (auto simp: tiles_def)
  have "concat (pieces @ [jsSlice text a b]) = take b text"
    using p(1) take_jsSlice[OF assms(2)] by simp
  moreover have "list_all2 (standsFor text ums) (pieces @ [jsSlice text a b]) (frag @ [ElementNode e])"
    using p(2) assms(4) by (simp add: list_all2_appendI)
  ultimately show ?thesis using assms(3) unfolding tiles_def by blast
qed

lemma tiles_remaining:
  assumes "tiles text ums (lastIndex st) (fragment st)"
  shows "tiles text ums (length text) (addRemainingText text st)"
proof (cases "lastIndex st < length text")
  case True
  with tiles_text[OF assms, of "length text"] show ?thesis by (simp add: addRemainingText_def)
next
  case False
  with assms have "lastIndex st = length text" by (simp add: tiles_def)
  with assms False show ?thesis by (simp add: addRemainingText_def)
qed

lemma fold_upt_invariant:
  assumes "P 0 s" and "\<And>k st. k < n \<Longrightarrow> P k st \<Longrightarrow> P (Suc k) (f k st)"
  shows "P n (fold f [0 ..< n] s)"
proof -
  have "m \<le> n \<Longrightarrow> P m (fold f [0 ..< m] s)" for m
  proof (induction m)
    case 0
    show ?case using assms(1) by simp
  next
    case (Suc m)
    then have "P m (fold f [0 ..< m] s)" "m < n" by simp_all
    with assms(2) show ?case by simp
  qed
  then show ?thesis by simp
qed

lemma fold_nth: "fold f xs s = fold (\<lambda>k. f (xs ! k)) [0 ..< length xs] s"
proof -
  have "fold f (map (\<lambda>k. xs ! k) [0 ..< length xs]) s = fold (\<lambda>k. f (xs ! k)) [0 ..< length xs] s"
    by (simp add: fold_map comp_def)
  then show ?thesis by (simp add: map_nth)
qed

lemma findCompound_length:
  assumes "findCompound ws 0 2 = Some r"
  shows "2 \<le> compoundLength r \<and> compoundLength r \<le> length ws"
  using assms by (auto simp: findCompound_two split: if_splits)

lemma apart_nth:
  assumes "sorted_wrt (\<lambda>a b. endIndex a \<le> index b) ums" "i < j" "j < length ums"
  shows "endIndex (ums ! i) \<le> index (ums ! j)"
  using assms by (rule sorted_wrt_nth_less)

lemma translatedSpan_standsFor:
  assumes "k < length ums" "wellFormed text (ums ! k)"
  shows "standsFor text ums (jsSlice text (index (ums ! k)) (endIndex (ums ! k)))
           (ElementNode (translatedSpan tips (mtext (ums ! k)) wd))"
proof -
  from assms(2) have "mtext (ums ! k) = jsSlice text (index (ums ! k)) (endIndex (ums ! k))"
    by (simp add: wellFormed_def)
  then have "map_of (attributes (translatedSpan tips (mtext (ums ! k)) wd)) ''data-original''
              = Some (jsSlice text (index (ums ! k)) (endIndex (ums ! k)))"
    by (simp add: translatedSpan_def)
  with assms(1) show ?thesis unfolding standsFor_def by auto
qed

lemma single_unit_invariant:
  assumes inv: "loopInvariant text ums k st" and k: "k < length ums"
    and apart: "sorted_wrt (\<lambda>a b. endIndex a \<le> index b) ums"
    and wf: "\<forall>m\<in>set ums. wellFormed text m"
    and notin: "k \<notin> processedIndices st"
    and sub: "processedIndices st \<subseteq> P"
  shows "loopInvariant text ums (Suc k)
           \<lparr>fragment = appendTextBefore text (index (ums ! k)) st
                         @ [ElementNode (translatedSpan tips (mtext (ums ! k)) wd)],
            lastIndex = endIndex (ums ! k), processedIndices = P\<rparr>"
proof -
  from wf k have w: "wellFormed text (ums ! k)" by simp
  then have b: "index (ums ! k) \<le> endIndex (ums ! k)" "endIndex (ums ! k) \<le> length text"
    by (simp_all add: wellFormed_def)
  from inv k notin have le: "lastIndex st \<le> index (ums ! k)" by (simp add: loopInvariant_def)
  from inv have t: "tiles text ums (lastIndex st) (fragment st)" by (simp add: loopInvariant_def)
  from b have "index (ums ! k) \<le> length text" by simp
  from tiles_before[OF t le this]
  have "tiles text ums (index (ums ! k)) (appendTextBefore text (index (ums ! k)) st)" .
  from tiles_unit[OF this b translatedSpan_standsFor[OF k w]]
  have "tiles text ums (endIndex (ums ! k))
          (appendTextBefore text (index (ums ! k)) st
             @ [ElementNode (translatedSpan tips (mtext (ums ! k)) wd)])" .
  moreover have "\<forall>j. Suc k \<le> j \<and> j < length ums \<longrightarrow> endIndex (ums ! k) \<le> index (ums ! j)"
    using apart_nth[OF apart] by auto
  ultimately show ?thesis by (simp add: loopInvariant_def)
qed

lemma plainStep_invariant:
  assumes "loopInvariant text ums k st" "k < length ums" "processedIndices st = {}"
    and "sorted_wrt (\<lambda>a b. endIndex a \<le> index b) ums" "\<forall>m\<in>set ums. wellFormed text m"
  shows "loopInvariant text ums (Suc k) (plainStep kw tips text (ums ! k) st)
         \<and> processedIndices (plainStep kw tips text (ums ! k) st) = {}"
proof (cases "lookupWord kw (toLowerCase (mtext (ums ! k)))")
  case None
  with assms(1,3) show ?thesis by (simp add: plainStep_def loopInvariant_def)
next
  case (Some wd)
  from assms(3) have "k \<notin> processedIndices st" "processedIndices st \<subseteq> {}" by simp_all
  from single_unit_invariant[OF assms(1,2,4,5) this, of tips wd] Some assms(3)
  show ?thesis by (simp add: plainStep_def Let_def)
qed

lemma chineseWords_length:
  "length (translationOf wd # nextTranslations kw ums k) \<le> length ums - k" if "k < length ums"
proof -
  have "length (nextTranslations kw ums k) \<le> length (take 2 (drop (k + 1) ums))"
    unfolding nextTranslations_def map_filter_def
    by (simp only: length_map) (rule length_filter_le)
  also have "\<dots> \<le> length ums - (k + 1)" by simp
  finally show ?thesis using that by simp
qed

lemma compound_unit_invariant:
  assumes inv: "loopInvariant text ums k st" and k: "k < length ums"
    and apart: "sorted_wrt (\<lambda>a b. endIndex a \<le> index b) ums"
    and wf: "\<forall>m\<in>set ums. wellFormed text m"
    and notin: "k \<notin> processedIndices st"
    and len: "2 \<le> compoundLength r" "k + compoundLength r \<le> length ums"
  shows "loopInvariant text ums (Suc k)
           \<lparr>fragment = appendTextBefore text (index (ums ! k)) st
                         @ [ElementNode (compoundSpan tips r ws)],
            lastIndex = endIndex (ums ! (k + compoundLength r - 1)),
            processedIndices = processedIndices st \<union> set [k ..< min (k + compoundLength r) (length ums)]\<rparr>"
proof -
  let ?j = "k + compoundLength r - 1"
  from len have j: "k < ?j" "?j < length ums" by simp_all
  from wf k j have w: "wellFormed text (ums ! k)" "wellFormed text (ums ! ?j)" by simp_all
  from apart_nth[OF apart j] have "endIndex (ums ! k) \<le> index (ums ! ?j)" .
  with w have b: "index (ums ! k) \<le> endIndex (ums ! ?j)" "endIndex (ums ! ?j) \<le> length text"
    "index (ums ! k) \<le> length text"
    by (simp_all add: wellFormed_def)
  from inv k notin have le: "lastIndex st \<le> index (ums ! k)" by (simp add: loopInvariant_def)
  from inv have t: "tiles text ums (lastIndex st) (fragment st)" by (simp add: loopInvariant_def)
  from tiles_before[OF t le b(3)]
  have t1: "tiles text ums (index (ums ! k)) (appendTextBefore text (index (ums ! k)) st)" .
  have "k \<le> ?j \<and> ?j < length ums \<and>
        jsSlice text (index (ums ! k)) (endIndex (ums ! ?j))
          = jsSlice text (index (ums ! k)) (endIndex (ums ! ?j)) \<and>
        (k = ?j \<longrightarrow> map_of (attributes (compoundSpan tips r ws)) ''data-original''
                      = Some (jsSlice text (index (ums ! k)) (endIndex (ums ! ?j)))) \<and>
        (k < ?j \<longrightarrow> className (compoundSpan tips r ws)
                      = ''lang-learner-translated lang-learner-compound'')"
    using j by (simp add: compoundSpan_def)
  then have "standsFor text ums (jsSlice text (index (ums ! k)) (endIndex (ums ! ?j)))
          (ElementNode (compoundSpan tips r ws))"
    unfolding standsFor_def node.case by blast
  from tiles_unit[OF t1 b(1,2) this]
  have "tiles text ums (endIndex (ums ! ?j))
          (appendTextBefore text (index (ums ! k)) st @ [ElementNode (compoundSpan tips r ws)])" .
  moreover have "\<forall>j'. Suc k \<le> j' \<and> j' < length ums \<and>
        j' \<notin> processedIndices st \<union> set [k ..< min (k + compoundLength r) (length ums)]
        \<longrightarrow> endIndex (ums ! ?j) \<le> index (ums ! j')"
  proof (intro allI impI)
    fix j' assume a: "Suc k \<le> j' \<and> j' < length ums \<and>
        j' \<notin> processedIndices st \<union> set [k ..< min (k + compoundLength r) (length ums)]"
    with len have "?j < j'" by auto
    with a apart_nth[OF apart, of ?j j'] show "endIndex (ums ! ?j) \<le> index (ums ! j')" by simp
  qed
  ultimately show ?thesis by (simp add: loopInvariant_def)
qed

lemma compoundStep_invariant:
  assumes inv: "loopInvariant text ums k st" and k: "k < length ums"
    and apart: "sorted_wrt (\<lambda>a b. endIndex a \<le> index b) ums"
    and wf: "\<forall>m\<in>set ums. wellFormed text m"
  shows "loopInvariant text ums (Suc k) (compoundStep kw tips text ums k st)"
proof (cases "k \<in> processedIndices st")
  case True
  with inv show ?thesis by (simp add: compoundStep_def loopInvariant_def)
next
  case notin: False
  show ?thesis
  proof (cases "lookupWord kw (toLowerCase (mtext (ums ! k)))")
    case None
    with inv notin show ?thesis by (simp add: compoundStep_def loopInvariant_def)
  next
    case (Some wd)
    let ?cw = "translationOf wd # nextTranslations kw ums k"
    let ?cr = "if 1 < length ?cw then findCompound ?cw 0 2 else None"
    show ?thesis
    proof (cases ?cr)
      case None
      have "processedIndices st \<subseteq> insert k (processedIndices st)" by auto
      from single_unit_invariant[OF inv k apart wf notin this, of tips wd] None Some notin
      show ?thesis by (simp add: compoundStep_def Let_def)
    next
      case cr: (Some r)
      then have f: "findCompound ?cw 0 2 = Some r" by (simp split: if_splits)
      from findCompound_length[OF f] chineseWords_length[OF k, of wd kw] k
      have len: "2 \<le> compoundLength r" "k + compoundLength r \<le> length ums" by auto
      from compound_unit_invariant[OF inv k apart wf notin len, of tips]
        cr Some notin
      show ?thesis by (simp add: compoundStep_def Let_def)
    qed
  qed
qed

lemma initial_invariant: "loopInvariant text ums 0 initialLoopState"
  by (simp add: loopInvariant_def initialLoopState_def tiles_def)

lemma runLoop_tiles:
  assumes apart: "sorted_wrt (\<lambda>a b. endIndex a \<le> index b) ums"
    and wf: "\<forall>m\<in>set ums. wellFormed text m"
  shows "tiles text ums (lastIndex (runLoop kw tips hfc text ums)) (fragment (runLoop kw tips hfc text ums))"
proof (cases "hfc \<and> ums \<noteq> []")
  case True
  have "loopInvariant text ums (length ums)
          (fold (compoundStep kw tips text ums) [0 ..< length ums] initialLoopState)"
    by (rule fold_upt_invariant[where P = "loopInvariant text ums"])
       (simp_all add: initial_invariant compoundStep_invariant[OF _ _ apart wf])
  with True show ?thesis by (simp add: runLoop_def loopInvariant_def)
next
  case False
  let ?P = "\<lambda>k st. loopInvariant text ums k st \<and> processedIndices st = {}"
  have "?P (length ums) (fold (\<lambda>k. plainStep kw tips text (ums ! k)) [0 ..< length ums] initialLoopState)"
  proof (rule fold_upt_invariant[where P = ?P])
    show "?P 0 initialLoopState" by (simp add: initial_invariant) (simp add: initialLoopState_def)
  next
    fix k st assume "k < length ums" "?P k st"
    then show "?P (Suc k) (plainStep kw tips text (ums ! k) st)"
      using plainStep_invariant[OF _ _ _ apart wf, of k st kw tips] by simp
  qed
  then have "loopInvariant text ums (length ums) (fold (plainStep kw tips text) ums initialLoopState)"
    using fold_nth[of "plainStep kw tips text" ums initialLoopState] by simp
  with False show ?thesis by (auto simp add: runLoop_def loopInvariant_def)
qed

text \<open>
  Claim C2, as amended. The children of the replacement fragment correspond one for one,
  in order, to consecutive pieces of the original text whose concatenation is the whole
  text: every text node repeats its piece verbatim, and every generated unit replaces
  one piece, which runs from the start of a resolved match to the end of that match or,
  for a compound unit, to the end of the last match the compound consumes. The text
  between two matches that one compound consumes belongs to the piece the compound
  replaces.
\<close>

theorem buildFragment_tiles_text:
  assumes "resolveMatches patterns originalText = Some uniqueMatches"
  shows "\<exists>frag pieces.
           buildFragment knownWords tips hasFindCompound originalText patterns = Some frag \<and>
           concat pieces = originalText \<and>
           list_all2 (standsFor originalText uniqueMatches) pieces frag"
proof -
  from assms obtain ms where ms: "collectMatches patterns originalText = Some ms"
    and u: "uniqueMatches = uniqueMatchesOf ms" by (auto simp: resolveMatches_def)
  have wfms: "\<forall>m\<in>set ms. wellFormed originalText m"
    using collectMatches_wellFormed[OF ms] by blast
  have "\<forall>m\<in>set ms. index m \<le> endIndex m"
  proof
    fix m assume "m \<in> set ms"
    with wfms have "wellFormed originalText m" by blast
    then show "index m \<le> endIndex m" by (simp add: wellFormed_def)
  qed
  note p = uniqueMatchesOf_props[OF this]
  from p(2) u have apart: "sorted_wrt (\<lambda>a b. endIndex a \<le> index b) uniqueMatches" by simp
  from p(3) have "set (uniqueMatchesOf ms) \<subseteq> set (sort_key index ms)"
    using list_emb_set[of "(=)" "uniqueMatchesOf ms" "sort_key index ms"] by auto
  with wfms u have wf: "\<forall>m\<in>set uniqueMatches. wellFormed originalText m" by auto
  let ?st = "runLoop knownWords tips hasFindCompound originalText uniqueMatches"
  from tiles_remaining[OF runLoop_tiles[OF apart wf]]
  have "tiles originalText uniqueMatches (length originalText) (addRemainingText originalText ?st)" .
  then obtain pieces where "concat pieces = originalText"
    "list_all2 (standsFor originalText uniqueMatches) pieces (addRemainingText originalText ?st)"
    by (auto simp: tiles_def)
  moreover from assms
  have "buildFragment knownWords tips hasFindCompound originalText patterns
          = Some (addRemainingText originalText ?st)"
    by (simp add: buildFragment_def)
  ultimately show ?thesis by blast
qed

text \<open>
  The spec's scenario: the vocabulary \<open>hello\<close>, \<open>world\<close> on the text \<open>Hello, world!\<close> gives
  two units, with the punctuation around them repeated verbatim.
\<close>

theorem buildFragment_tiles_text_witness:
  "resolveMatches [learnPattern [ascii ''hello'', ascii ''world'']] (ascii ''Hello, world!'')
     = Some [\<lparr>mtext = ascii ''Hello'', index = 0, endIndex = 5\<rparr>,
             \<lparr>mtext = ascii ''world'', index = 7, endIndex = 12\<rparr>] \<and>
   buildFragment
     [(ascii ''hello'', \<lparr>translation = [0x4F60, 0x597D], pinyin = None\<rparr>),
      (ascii ''world'', \<lparr>translation = [0x4E16, 0x754C], pinyin = None\<rparr>)]
     False True (ascii ''Hello, world!'') [learnPattern [ascii ''hello'', ascii ''world'']]
     = Some [ElementNode (translatedSpan False (ascii ''Hello'') (Own \<lparr>translation = [0x4F60, 0x597D], pinyin = None\<rparr>)),
             TextNode (ascii '', ''),
             ElementNode (translatedSpan False (ascii ''world'') (Own \<lparr>translation = [0x4E16, 0x754C], pinyin = None\<rparr>)),
             TextNode (ascii ''!'')] \<and>
   (\<exists>pieces. concat pieces = ascii ''Hello, world!'' \<and>
      list_all2
        (standsFor (ascii ''Hello, world!'')
           [\<lparr>mtext = ascii ''Hello'', index = 0, endIndex = 5\<rparr>,
            \<lparr>mtext = ascii ''world'', index = 7, endIndex = 12\<rparr>])
        pieces
        [ElementNode (translatedSpan False (ascii ''Hello'') (Own \<lparr>translation = [0x4F60, 0x597D], pinyin = None\<rparr>)),
         TextNode (ascii '', ''),
         ElementNode (translatedSpan False (ascii ''world'') (Own \<lparr>translation = [0x4E16, 0x754C], pinyin = None\<rparr>)),
         TextNode (ascii ''!'')])"
proof -
  let ?kw = "[(ascii ''hello'', \<lparr>translation = [0x4F60, 0x597D], pinyin = None\<rparr>),
      (ascii ''world'', \<lparr>translation = [0x4E16, 0x754C], pinyin = None\<rparr>)]"
  let ?ps = "[learnPattern [ascii ''hello'', ascii ''world'']]"
  let ?u = "[\<lparr>mtext = ascii ''Hello'', index = 0, endIndex = 5\<rparr>,
             \<lparr>mtext = ascii ''world'', index = 7, endIndex = 12\<rparr>]"
  let ?f = "[ElementNode (translatedSpan False (ascii ''Hello'') (Own \<lparr>translation = [0x4F60, 0x597D], pinyin = None\<rparr>)),
             TextNode (ascii '', ''),
             ElementNode (translatedSpan False (ascii ''world'') (Own \<lparr>translation = [0x4E16, 0x754C], pinyin = None\<rparr>)),
             TextNode (ascii ''!'')]"
  have r: "resolveMatches ?ps (ascii ''Hello, world!'') = Some ?u" by code_simp
  have b: "buildFragment ?kw False True (ascii ''Hello, world!'') ?ps = Some ?f" by code_simp
  from buildFragment_tiles_text[OF r, of ?kw False True] b
  have "\<exists>pieces. concat pieces = ascii ''Hello, world!'' \<and>
          list_all2 (standsFor (ascii ''Hello, world!'') ?u) pieces ?f"
    by auto
  with r b show ?thesis by blast
qed

text \<open>
  The claim as stated fails where a compound is resolved. With the entries \<open>he\<close> and
  \<open>of\<close>, whose translations concatenate to a key of the compound dictionary, the two
  matches of \<open>He is of age\<close> are consumed as one unit and the fragment is that unit
  followed by the rest of the text: the text between the two matches is not repeated.
\<close>

theorem buildFragment_tiles_text_counterexample:
  "resolveMatches [learnPattern [ascii ''he'', ascii ''of'']] (ascii ''He is of age'')
     = Some [\<lparr>mtext = ascii ''He'', index = 0, endIndex = 2\<rparr>,
             \<lparr>mtext = ascii ''of'', index = 6, endIndex = 8\<rparr>] \<and>
   jsSlice (ascii ''He is of age'') 2 6 = ascii '' is '' \<and>
   buildFragment
     [(ascii ''he'', \<lparr>translation = [0x4ED6], pinyin = None\<rparr>),
      (ascii ''of'', \<lparr>translation = [0x7684], pinyin = None\<rparr>)]
     False True (ascii ''He is of age'') [learnPattern [ascii ''he'', ascii ''of'']]
     = Some [ElementNode
               (compoundSpan False
                  \<lparr>compound = [0x4ED6, 0x7684], compoundTranslation = Own (ascii ''his''), compoundLength = 2\<rparr>
                  [ascii ''He'', ascii ''of'']),
             TextNode (ascii '' age'')]"
  by code_simp

section \<open>Claims about the scan of a subtree\<close>


lemma learnCallback_marks:
  assumes "learnCallback kw settings hfc patterns n st = Returns st1"
  shows "processedNodes st1
           = processedNodes st \<union> (if hasMatches patterns (nodeText n) then {nodeId n} else {})"
  using assms
  by (auto simp: learnCallback_def replaceTextNode_def Let_def
           split: if_splits outcome.splits option.splits)

lemma walk_processedNodes:
  assumes "walkTextNodes (learnCallback kw settings hfc patterns) nodes st = Returns st'"
  shows "processedNodes st' = processedNodes st \<union>
           nodeId ` {n \<in> set (visitedNodes (learnCallback kw settings hfc patterns) nodes st).
                       hasMatches patterns (nodeText n)}"
  using assms
proof (induction nodes arbitrary: st)
  case Nil
  then show ?case by simp
next
  case (Cons n nodes)
  let ?cb = "learnCallback kw settings hfc patterns"
  show ?case
  proof (cases "acceptNode n = FILTER_ACCEPT")
    case False
    with Cons.prems have "walkTextNodes ?cb nodes st = Returns st'" by simp
    from Cons.IH[OF this] False show ?thesis by simp
  next
    case True
    with Cons.prems obtain st1 where cb: "?cb n st = Returns st1"
      by (auto split: outcome.splits)
    note m = learnCallback_marks[OF cb]
    show ?thesis
    proof (cases "parentNode st1 n = None")
      case gone: True
      with Cons.prems True cb have "st' = st1" by simp
      moreover from True cb gone have "visitedNodes ?cb (n # nodes) st = [n]" by simp
      ultimately show ?thesis using m by auto
    next
      case there: False
      with Cons.prems True cb have rest: "walkTextNodes ?cb nodes st1 = Returns st'" by auto
      from True cb there
      have v: "visitedNodes ?cb (n # nodes) st = n # visitedNodes ?cb nodes st1" by auto
      from Cons.IH[OF rest] m show ?thesis unfolding v by auto
    qed
  qed
qed

lemma visitedNodes_prefix:
  "prefix (visitedNodes callback nodes st) (filter (\<lambda>n. acceptNode n = FILTER_ACCEPT) nodes)"
  by (induction nodes arbitrary: st) (auto split: outcome.splits)

text \<open>
  Claim C4, as amended. A scan that returns leaves in \<open>processedNodes\<close> the nodes that were
  there before and, of the text nodes it visited, exactly those in whose text some
  pattern matches, which are the nodes it has rewritten. A visited node without a match
  is not marked: the callback returns before \<open>processedNodes.add\<close>, and the next scan
  tests the node again. This holds for \<open>processSubtree\<close> and for \<open>translateKnownWords\<close>.
  The visited nodes are the text nodes under the root that the filter accepts, in
  document order, up to the node at which the walk ends.
\<close>

theorem scan_marks_rewritten_nodes:
  assumes "getCompiledPatterns knownWords (cache st) = Inr (patterns, c)"
  shows "(\<forall>st'. processSubtree knownWords settings hasFindCompound ''learn'' subtree st = Returns st'
            \<longrightarrow> processedNodes st' = processedNodes st \<union>
                  (if autoTranslate settings
                   then nodeId ` {n \<in> set (visitedNodes
                                             (learnCallback knownWords settings hasFindCompound patterns)
                                             subtree (st\<lparr>cache := c\<rparr>)).
                                   hasMatches patterns (nodeText n)}
                   else {})) \<and>
         (\<forall>st'. translateKnownWords knownWords settings hasFindCompound subtree st = Returns st'
            \<longrightarrow> processedNodes st' = processedNodes st \<union>
                  (if objectKeys knownWords \<noteq> []
                   then nodeId ` {n \<in> set (visitedNodes
                                             (learnCallback knownWords settings hasFindCompound patterns)
                                             subtree (st\<lparr>cache := c\<rparr>)).
                                   hasMatches patterns (nodeText n)}
                   else {})) \<and>
         prefix (visitedNodes (learnCallback knownWords settings hasFindCompound patterns)
                   subtree (st\<lparr>cache := c\<rparr>))
                (filter (\<lambda>n. acceptNode n = FILTER_ACCEPT) subtree)"
proof (intro conjI allI impI)
  fix st'
  assume r: "processSubtree knownWords settings hasFindCompound ''learn'' subtree st = Returns st'"
  show "processedNodes st' = processedNodes st \<union>
          (if autoTranslate settings
           then nodeId ` {n \<in> set (visitedNodes
                                     (learnCallback knownWords settings hasFindCompound patterns)
                                     subtree (st\<lparr>cache := c\<rparr>)).
                           hasMatches patterns (nodeText n)}
           else {})"
  proof (cases "autoTranslate settings \<and> patterns \<noteq> []")
    case True
    with r assms
    have "walkTextNodes (learnCallback knownWords settings hasFindCompound patterns) subtree (st\<lparr>cache := c\<rparr>)
            = Returns st'"
      by (simp add: processSubtree_def)
    from walk_processedNodes[OF this] True show ?thesis by simp
  next
    case False
    with r assms have "processedNodes st' = processedNodes st"
      by (auto simp: processSubtree_def split: if_splits)
    with False show ?thesis by (auto simp: hasMatches_def)
  qed
next
  fix st'
  assume r: "translateKnownWords knownWords settings hasFindCompound subtree st = Returns st'"
  show "processedNodes st' = processedNodes st \<union>
          (if objectKeys knownWords \<noteq> []
           then nodeId ` {n \<in> set (visitedNodes
                                     (learnCallback knownWords settings hasFindCompound patterns)
                                     subtree (st\<lparr>cache := c\<rparr>)).
                           hasMatches patterns (nodeText n)}
           else {})"
  proof (cases "objectKeys knownWords = []")
    case True
    with r show ?thesis by (simp add: translateKnownWords_def)
  next
    case False
    with r assms
    have "walkTextNodes (learnCallback knownWords settings hasFindCompound patterns) subtree (st\<lparr>cache := c\<rparr>)
            = Returns st'"
      by (simp add: translateKnownWords_def)
    from walk_processedNodes[OF this] False show ?thesis by simp
  qed
next
  show "prefix (visitedNodes (learnCallback knownWords settings hasFindCompound patterns)
                   subtree (st\<lparr>cache := c\<rparr>))
                (filter (\<lambda>n. acceptNode n = FILTER_ACCEPT) subtree)"
    by (rule visitedNodes_prefix)
qed

text \<open>
  The claim as stated fails: a text node that the walk accepts and in which nothing
  matches is not in \<open>processedNodes\<close> after the scan.
\<close>

theorem scan_marks_rewritten_nodes_counterexample:
  "acceptNode (textUnder 0 1 ''nothing here'') = FILTER_ACCEPT \<and>
   processSubtree helloWords settingsOn True ''learn'' [textUnder 0 1 ''nothing here''] freshState
     = Returns \<lparr>processedNodes = {}, cache = helloCache, replaced = []\<rparr>"
  by code_simp

text \<open>
  The theorem at a subtree with two text nodes: both are visited, the first has no match
  and stays unmarked, the second is rewritten and marked.
\<close>

theorem scan_marks_rewritten_nodes_witness:
  "processSubtree helloWords settingsOn True ''learn''
     [textUnder 0 1 ''nothing here'', textUnder 0 2 ''hello there''] freshState
     = Returns \<lparr>processedNodes = {2}, cache = helloCache,
                replaced = [(2, [ElementNode (helloSpan ''hello''), TextNode (ascii '' there'')])]\<rparr> \<and>
   visitedNodes (learnCallback helloWords settingsOn True [learnPattern [ascii ''hello'']])
     [textUnder 0 1 ''nothing here'', textUnder 0 2 ''hello there''] (freshState\<lparr>cache := helloCache\<rparr>)
     = [textUnder 0 1 ''nothing here'', textUnder 0 2 ''hello there''] \<and>
   {2} = processedNodes freshState \<union>
           nodeId ` {n \<in> set [textUnder 0 1 ''nothing here'', textUnder 0 2 ''hello there''].
                      hasMatches [learnPattern [ascii ''hello'']] (nodeText n)}"
proof -
  let ?nodes = "[textUnder 0 1 ''nothing here'', textUnder 0 2 ''hello there'']"
  let ?st' = "\<lparr>processedNodes = {2}, cache = helloCache,
                replaced = [(2, [ElementNode (helloSpan ''hello''), TextNode (ascii '' there'')])]\<rparr>"
  have g: "getCompiledPatterns helloWords (cache freshState) = Inr ([learnPattern [ascii ''hello'']], helloCache)"
    by code_simp
  have r: "processSubtree helloWords settingsOn True ''learn'' ?nodes freshState = Returns ?st'"
    by code_simp
  have v: "visitedNodes (learnCallback helloWords settingsOn True [learnPattern [ascii ''hello'']])
             ?nodes (freshState\<lparr>cache := helloCache\<rparr>) = ?nodes"
    by code_simp
  have a: "autoTranslate settingsOn" by (simp add: settingsOn_def)
  from scan_marks_rewritten_nodes[OF g, of settingsOn True ?nodes] r a
  have "processedNodes ?st' = processedNodes freshState \<union>
           nodeId ` {n \<in> set (visitedNodes (learnCallback helloWords settingsOn True [learnPattern [ascii ''hello'']])
                                 ?nodes (freshState\<lparr>cache := helloCache\<rparr>)).
                      hasMatches [learnPattern [ascii ''hello'']] (nodeText n)}"
    by simp
  with r v show ?thesis by simp
qed

section \<open>Claims about the replacement of a node\<close>

lemma parentNode_after_replace:
  "parentNode (st\<lparr>replaced := replaced st @ [(nodeId n, frag)], processedNodes := P\<rparr>) n = None"
  by (simp add: parentNode_def)


lemma practiceCallback_step:
  assumes "[] \<notin> set (alternatives pattern)" and "parentNode st n \<noteq> None"
  shows "practiceCallback pattern n st =
     (if nodeId n \<notin> processedNodes st \<and> test pattern (nodeText n)
      then Returns (st\<lparr>replaced := replaced st @ [(nodeId n, highlightFragmentOf pattern n)],
                       processedNodes := insert (nodeId n) (processedNodes st)\<rparr>)
      else Returns st)"
proof -
  from execAll_returns[OF assms(1)] obtain ms where "execAll pattern (nodeText n) 0 = Some ms"
    by blast
  then obtain frag where frag: "buildHighlightFragment (nodeText n) pattern = Some frag"
    by (simp add: buildHighlightFragment_def)
  then have "highlightFragmentOf pattern n = frag" by (simp add: highlightFragmentOf_def)
  with frag assms(2) show ?thesis
    by (auto simp: practiceCallback_def highlightKnownWords_def Let_def)
qed

text \<open>
  A walk whose callback leaves the state as it is until it replaces a node: it replaces
  the first node for which the callback does so, and ends there.
\<close>

lemma walk_until_replaced:
  assumes "\<forall>n\<in>set nodes. parentNode st n \<noteq> None"
    and "\<And>n. n \<in> set nodes \<Longrightarrow> \<not> P n \<Longrightarrow> callback n st = Returns st"
    and "\<And>n. n \<in> set nodes \<Longrightarrow> P n \<Longrightarrow> callback n st = Returns (f n) \<and> parentNode (f n) n = None"
  shows "walkTextNodes callback nodes st =
     (case find (\<lambda>n. acceptNode n = FILTER_ACCEPT \<and> P n) nodes of
        None \<Rightarrow> Returns st
      | Some n \<Rightarrow> Returns (f n))"
  using assms
proof (induction nodes)
  case Nil
  show ?case by simp
next
  case (Cons n nodes)
  have IH: "walkTextNodes callback nodes st =
     (case find (\<lambda>n. acceptNode n = FILTER_ACCEPT \<and> P n) nodes of
        None \<Rightarrow> Returns st
      | Some n \<Rightarrow> Returns (f n))"
    by (rule Cons.IH) (simp_all add: Cons.prems)
  show ?case
  proof (cases "acceptNode n = FILTER_ACCEPT")
    case False
    with IH show ?thesis by simp
  next
    case True
    show ?thesis
    proof (cases "P n")
      case True
      with Cons.prems(3)[of n] \<open>acceptNode n = FILTER_ACCEPT\<close> show ?thesis by simp
    next
      case False
      with Cons.prems(2)[of n] have "callback n st = Returns st" by simp
      moreover from Cons.prems(1) have "parentNode st n \<noteq> None" by simp
      ultimately show ?thesis using True False IH by auto
    qed
  qed
qed


lemma practice_walk:
  assumes "[] \<notin> set (alternatives pattern)"
    and "\<forall>n\<in>set nodes. parentNode st n \<noteq> None"
  shows "walkTextNodes (practiceCallback pattern) nodes st =
     (case find (\<lambda>n. acceptNode n = FILTER_ACCEPT \<and>
                      (nodeId n \<notin> processedNodes st \<and> test pattern (nodeText n))) nodes of
        None \<Rightarrow> Returns st
      | Some n \<Rightarrow>
          Returns (st\<lparr>replaced := replaced st @ [(nodeId n, highlightFragmentOf pattern n)],
                      processedNodes := insert (nodeId n) (processedNodes st)\<rparr>))"
proof (rule walk_until_replaced[OF assms(2)])
  fix n assume "n \<in> set nodes" "\<not> (nodeId n \<notin> processedNodes st \<and> test pattern (nodeText n))"
  with assms practiceCallback_step[OF assms(1), of st n]
  show "practiceCallback pattern n st = Returns st" by auto
next
  fix n assume "n \<in> set nodes" "nodeId n \<notin> processedNodes st \<and> test pattern (nodeText n)"
  with assms practiceCallback_step[OF assms(1), of st n]
  show "practiceCallback pattern n st
          = Returns (st\<lparr>replaced := replaced st @ [(nodeId n, highlightFragmentOf pattern n)],
                        processedNodes := insert (nodeId n) (processedNodes st)\<rparr>) \<and>
        parentNode (st\<lparr>replaced := replaced st @ [(nodeId n, highlightFragmentOf pattern n)],
                       processedNodes := insert (nodeId n) (processedNodes st)\<rparr>) n = None"
    by (auto simp: parentNode_after_replace)
qed






section \<open>Claims about the matching of the two modes\<close>

lemma firstMatch_complete:
  "i \<in> set js \<Longrightarrow> matchAt r s i \<noteq> None \<Longrightarrow> firstMatch r s js \<noteq> None"
  by (induction js) (auto split: option.splits)

lemma matchAt_complete:
  assumes "alt \<in> set (alternatives r)" "altMatches r s i alt" "wordBoundary r \<longrightarrow> atBoundary s i"
  shows "matchAt r s i \<noteq> None"
proof -
  from assms(1,2) have "find (altMatches r s i) (alternatives r) \<noteq> None"
    by (auto simp: find_None_iff)
  with assms(3) show ?thesis by (auto simp: matchAt_def)
qed

lemma test_iff:
  "test r s \<longleftrightarrow>
     (\<exists>i alt. alt \<in> set (alternatives r) \<and> altMatches r s i alt \<and> (wordBoundary r \<longrightarrow> atBoundary s i))"
proof
  assume "test r s"
  then obtain i e where "exec r s 0 = Some (i, e)" by (auto simp: test_def)
  from exec_alt[OF this]
  show "\<exists>i alt. alt \<in> set (alternatives r) \<and> altMatches r s i alt \<and> (wordBoundary r \<longrightarrow> atBoundary s i)"
    by blast
next
  assume "\<exists>i alt. alt \<in> set (alternatives r) \<and> altMatches r s i alt \<and> (wordBoundary r \<longrightarrow> atBoundary s i)"
  then obtain i alt where a: "alt \<in> set (alternatives r)" "altMatches r s i alt"
    "wordBoundary r \<longrightarrow> atBoundary s i" by blast
  from a(2) have "i \<le> length s" by (simp add: altMatches_def)
  then have "i \<in> set [0 ..< Suc (length s)]" by auto
  from firstMatch_complete[OF this matchAt_complete[OF a]]
  show "test r s" by (simp add: test_def exec_def)
qed

lemma test_knownPattern:
  "test (knownPattern words) s \<longleftrightarrow> (\<exists>t\<in>set words. \<exists>i. occursAt t s i)"
  by (auto simp: test_iff knownPattern_def altMatches_def sameUnits_def occursAt_def)

lemma test_learnPattern:
  "test (learnPattern chunk) s \<longleftrightarrow> (\<exists>w\<in>set chunk. \<exists>i. occursAsWord w s i)"
  by (auto simp: test_iff learnPattern_def altMatches_def sameUnits_def occursAsWord_def)

lemma hasMatches_learn:
  "hasMatches (map learnPattern (chunksOf ws)) s \<longleftrightarrow> (\<exists>w\<in>set ws. \<exists>i. occursAsWord w s i)"
proof -
  have "set ws = set (concat (chunksOf ws))" by (simp add: concat_chunksOf)
  then have "(\<exists>w\<in>set ws. \<exists>i. occursAsWord w s i)
               \<longleftrightarrow> (\<exists>chunk\<in>set (chunksOf ws). \<exists>w\<in>set chunk. \<exists>i. occursAsWord w s i)"
    by auto
  then show ?thesis by (simp add: hasMatches_def list_ex_iff test_learnPattern)
qed

lemma execAll_matches:
  "execAll r s k = Some ms \<Longrightarrow> m \<in> set ms \<Longrightarrow>
     \<exists>alt\<in>set (alternatives r).
        endIndex m = index m + length alt \<and> altMatches r s (index m) alt \<and>
        (wordBoundary r \<longrightarrow> atBoundary s (index m))"
proof (induction r s k arbitrary: ms rule: execAll.induct)
  case (1 r s k)
  show ?case
  proof (cases "exec r s k")
    case None
    with "1.prems" show ?thesis by (simp add: execAll.simps[of r s k])
  next
    case (Some ie)
    obtain i e where ie: "ie = (i, e)" by (cases ie)
    with Some have ex: "exec r s k = Some (i, e)" by simp
    from "1.prems"(1) ex have lt: "\<not> e \<le> i"
      by (auto simp: execAll.simps[of r s k] split: if_splits)
    from "1.prems"(1) ex lt obtain ms' where ms': "execAll r s e = Some ms'"
      and ms: "ms = \<lparr>mtext = jsSlice s i e, index = i, endIndex = e\<rparr> # ms'"
      by (auto simp: execAll.simps[of r s k] split: option.splits)
    show ?thesis
    proof (cases "m \<in> set ms'")
      case True
      from "1.IH"[OF Some ie[symmetric] lt ms' True] show ?thesis .
    next
      case False
      with "1.prems"(2) ms have "m = \<lparr>mtext = jsSlice s i e, index = i, endIndex = e\<rparr>" by simp
      with exec_alt[OF ex] show ?thesis by simp
    qed
  qed
qed

lemma execAll_apart:
  "execAll r s k = Some ms \<Longrightarrow> sorted_wrt (\<lambda>a b. endIndex a \<le> index b) ms"
proof (induction r s k arbitrary: ms rule: execAll.induct)
  case (1 r s k)
  show ?case
  proof (cases "exec r s k")
    case None
    with "1.prems" show ?thesis by (simp add: execAll.simps[of r s k])
  next
    case (Some ie)
    obtain i e where ie: "ie = (i, e)" by (cases ie)
    with Some have ex: "exec r s k = Some (i, e)" by simp
    from "1.prems"(1) ex have lt: "\<not> e \<le> i"
      by (auto simp: execAll.simps[of r s k] split: if_splits)
    from "1.prems"(1) ex lt obtain ms' where ms': "execAll r s e = Some ms'"
      and ms: "ms = \<lparr>mtext = jsSlice s i e, index = i, endIndex = e\<rparr> # ms'"
      by (auto simp: execAll.simps[of r s k] split: option.splits)
    have "\<forall>m\<in>set ms'. e \<le> index m"
      using execAll_wellFormed[OF ms'] by blast
    with "1.IH"[OF Some ie[symmetric] lt ms'] ms show ?thesis by simp
  qed
qed

lemma execAll_test:
  "execAll r s 0 = Some ms \<Longrightarrow> ms \<noteq> [] \<longleftrightarrow> test r s"
  by (auto simp: execAll.simps[of r s 0] test_def split: option.splits if_splits)

lemma fragmentText_append: "fragmentText (a @ b) = fragmentText a @ fragmentText b"
  by (simp add: fragmentText_def)

lemma units_append: "units (a @ b) = units a @ units b"
  by (simp add: units_def)

lemma appendTextBefore_text:
  assumes "fragmentText (fragment st) = take (lastIndex st) s" "lastIndex st \<le> a"
  shows "fragmentText (appendTextBefore s a st) = take a s"
    and "units (appendTextBefore s a st) = units (fragment st)"
proof -
  show "fragmentText (appendTextBefore s a st) = take a s"
  proof (cases "lastIndex st < a")
    case True
    have "fragmentText (fragment st @ [TextNode (jsSlice s (lastIndex st) a)])
            = take (lastIndex st) s @ jsSlice s (lastIndex st) a"
      using assms(1) by (simp add: fragmentText_def)
    with True take_jsSlice[OF assms(2), of s] show ?thesis by (simp add: appendTextBefore_def)
  next
    case False
    with assms show ?thesis by (simp add: appendTextBefore_def)
  qed
  show "units (appendTextBefore s a st) = units (fragment st)"
    by (simp add: appendTextBefore_def units_def)
qed

lemma highlight_fold:
  assumes "sorted_wrt (\<lambda>a b. endIndex a \<le> index b) ms"
    and "\<forall>m\<in>set ms. wellFormed s m \<and> lastIndex st \<le> index m"
    and "fragmentText (fragment st) = take (lastIndex st) s" and "lastIndex st \<le> length s"
  shows "fragmentText (fragment (fold (highlightStep s) ms st))
           = take (lastIndex (fold (highlightStep s) ms st)) s \<and>
         lastIndex (fold (highlightStep s) ms st) \<le> length s \<and>
         units (fragment (fold (highlightStep s) ms st))
           = units (fragment st) @ map (\<lambda>m. knownSpan (mtext m)) ms"
  using assms
proof (induction ms arbitrary: st)
  case Nil
  then show ?case by simp
next
  case (Cons m ms)
  let ?st1 = "highlightStep s m st"
  from Cons.prems(2) have wf: "wellFormed s m" and le: "lastIndex st \<le> index m" by simp_all
  from wf have b: "index m \<le> endIndex m" "endIndex m \<le> length s"
    and t: "mtext m = jsSlice s (index m) (endIndex m)" by (simp_all add: wellFormed_def)
  note before = appendTextBefore_text[OF Cons.prems(3) le]
  have "fragmentText (fragment ?st1) = take (index m) s @ jsSlice s (index m) (endIndex m)"
    using before(1) t by (simp add: highlightStep_def fragmentText_append) (simp add: fragmentText_def knownSpan_def)
  with take_jsSlice[OF b(1), of s]
  have f1: "fragmentText (fragment ?st1) = take (lastIndex ?st1) s"
    by (simp add: highlightStep_def)
  have l1: "lastIndex ?st1 \<le> length s" using b(2) by (simp add: highlightStep_def)
  have u1: "units (fragment ?st1) = units (fragment st) @ [knownSpan (mtext m)]"
    using before(2) by (simp add: highlightStep_def units_append) (simp add: units_def)
  have s1: "sorted_wrt (\<lambda>a b. endIndex a \<le> index b) ms" using Cons.prems(1) by simp
  have w1: "\<forall>m'\<in>set ms. wellFormed s m' \<and> lastIndex ?st1 \<le> index m'"
    using Cons.prems(1,2) by (simp add: highlightStep_def)
  from Cons.IH[OF s1 w1 f1 l1] u1 show ?case by simp
qed

lemma buildHighlightFragment_props:
  assumes "execAll r s 0 = Some ms"
  shows "\<exists>frag. buildHighlightFragment s r = Some frag \<and> fragmentText frag = s \<and>
           units frag = map (\<lambda>m. knownSpan (mtext m)) ms"
proof -
  let ?st = "fold (highlightStep s) ms initialLoopState"
  have w: "\<forall>m\<in>set ms. wellFormed s m \<and> lastIndex initialLoopState \<le> index m"
    using execAll_wellFormed[OF assms] by (simp add: initialLoopState_def)
  have "fragmentText (fragment initialLoopState) = take (lastIndex initialLoopState) s"
    "lastIndex initialLoopState \<le> length s"
    by (simp_all add: initialLoopState_def fragmentText_def)
  from highlight_fold[OF execAll_apart[OF assms] w this]
  have f: "fragmentText (fragment ?st) = take (lastIndex ?st) s" "lastIndex ?st \<le> length s"
    "units (fragment ?st) = map (\<lambda>m. knownSpan (mtext m)) ms"
    by (simp_all add: initialLoopState_def units_def)
  have "fragmentText (addRemainingText s ?st) = s"
  proof (cases "lastIndex ?st < length s")
    case True
    have "fragmentText (fragment ?st @ [TextNode (jsSlice s (lastIndex ?st) (length s))])
            = take (lastIndex ?st) s @ jsSlice s (lastIndex ?st) (length s)"
      using f(1) by (simp add: fragmentText_def)
    with True take_jsSlice[OF f(2), of s] show ?thesis by (simp add: addRemainingText_def)
  next
    case False
    with f show ?thesis by (simp add: addRemainingText_def)
  qed
  moreover have "units (addRemainingText s ?st) = map (\<lambda>m. knownSpan (mtext m)) ms"
    using f(3) by (simp add: addRemainingText_def units_def)
  ultimately show ?thesis using assms by (simp add: buildHighlightFragment_def)
qed

text \<open>
  Claim C10. In practice mode the pattern is the alternation of the entries'
  translations with neither the \<open>i\<close> flag nor \<open>\b\<close> anchors. So a text is highlighted
  exactly when one of the translations stands in it code unit for code unit, at any
  offset, inside a word or not. \<open>highlightKnownWords\<close> then builds a fragment with the
  same text as the node, whose units are the matches of the pattern in order, each with
  the matched text, which is one of the translations; and \<open>translateUnknownWords\<close> puts
  that fragment in the place of the first text node it reaches in which a translation
  stands. In learn mode a text has a match exactly when a key of the vocabulary stands
  in it up to the case folding of the \<open>i\<close> flag and between two word boundaries, and
  every match of a learn-mode pattern is of this kind.
\<close>

theorem practice_versus_learn_matching:
  assumes "knownWords \<noteq> []"
  shows "practicePattern knownWords = Inr (knownPattern (translationsOf knownWords)) \<and>
    (\<forall>s. test (knownPattern (translationsOf knownWords)) s
            \<longleftrightarrow> (\<exists>t\<in>set (translationsOf knownWords). \<exists>i. occursAt t s i)) \<and>
    (\<forall>s ms. execAll (knownPattern (translationsOf knownWords)) s 0 = Some ms \<longrightarrow>
       (\<exists>frag. buildHighlightFragment s (knownPattern (translationsOf knownWords)) = Some frag \<and>
          fragmentText frag = s \<and> units frag = map (\<lambda>m. knownSpan (mtext m)) ms) \<and>
       (\<forall>m\<in>set ms. mtext m \<in> set (translationsOf knownWords) \<and> occursAt (mtext m) s (index m))) \<and>
    ([] \<notin> set (translationsOf knownWords) \<and> (\<forall>n\<in>set nodes. parentNode st n \<noteq> None) \<longrightarrow>
       translateUnknownWords knownWords nodes st =
         (case find (\<lambda>n. acceptNode n = FILTER_ACCEPT \<and>
                          (nodeId n \<notin> processedNodes st \<and>
                           (\<exists>t\<in>set (translationsOf knownWords). \<exists>i. occursAt t (nodeText n) i))) nodes of
            None \<Rightarrow> Returns st
          | Some n \<Rightarrow>
              Returns (st\<lparr>replaced := replaced st
                             @ [(nodeId n, highlightFragmentOf (knownPattern (translationsOf knownWords)) n)],
                          processedNodes := insert (nodeId n) (processedNodes st)\<rparr>))) \<and>
    (\<forall>ps c. getCompiledPatterns knownWords emptyCache = Inr (ps, c) \<longrightarrow>
       (\<forall>s. hasMatches ps s \<longleftrightarrow> (\<exists>w\<in>set (objectKeys knownWords). \<exists>i. occursAsWord w s i)) \<and>
       (\<forall>r s k i e. r \<in> set ps \<and> exec r s k = Some (i, e) \<longrightarrow>
          wordBoundary r \<and> ignoreCase r \<and>
          (\<exists>w\<in>set (objectKeys knownWords). e = i + length w \<and> occursAsWord w s i)))"
proof -
  let ?ts = "translationsOf knownWords"
  let ?P = "knownPattern ?ts"
  have A: "practicePattern knownWords = Inr ?P"
    using assms by (rule practicePattern_eq)
  have B: "\<forall>s. test ?P s \<longleftrightarrow> (\<exists>t\<in>set ?ts. \<exists>i. occursAt t s i)"
    by (simp add: test_knownPattern)
  have C: "\<forall>s ms. execAll ?P s 0 = Some ms \<longrightarrow>
       (\<exists>frag. buildHighlightFragment s ?P = Some frag \<and>
          fragmentText frag = s \<and> units frag = map (\<lambda>m. knownSpan (mtext m)) ms) \<and>
       (\<forall>m\<in>set ms. mtext m \<in> set ?ts \<and> occursAt (mtext m) s (index m))"
  proof (intro allI impI conjI ballI)
    fix s ms assume e: "execAll ?P s 0 = Some ms"
    from buildHighlightFragment_props[OF e]
    show "\<exists>frag. buildHighlightFragment s ?P = Some frag \<and>
          fragmentText frag = s \<and> units frag = map (\<lambda>m. knownSpan (mtext m)) ms" .
    fix m assume m: "m \<in> set ms"
    from execAll_matches[OF e m] obtain alt where alt: "alt \<in> set ?ts"
      "endIndex m = index m + length alt" "altMatches ?P s (index m) alt"
      by (auto simp: knownPattern_def)
    from execAll_wellFormed[OF e m] have "mtext m = jsSlice s (index m) (endIndex m)"
      by (simp add: wellFormed_def)
    with alt have "mtext m = alt" "occursAt alt s (index m)"
      by (simp_all add: altMatches_def sameUnits_def knownPattern_def occursAt_def)
    with alt(1) show "mtext m \<in> set ?ts" "occursAt (mtext m) s (index m)" by simp_all
  qed
  have D: "[] \<notin> set ?ts \<and> (\<forall>n\<in>set nodes. parentNode st n \<noteq> None) \<longrightarrow>
       translateUnknownWords knownWords nodes st =
         (case find (\<lambda>n. acceptNode n = FILTER_ACCEPT \<and>
                          (nodeId n \<notin> processedNodes st \<and>
                           (\<exists>t\<in>set ?ts. \<exists>i. occursAt t (nodeText n) i))) nodes of
            None \<Rightarrow> Returns st
          | Some n \<Rightarrow>
              Returns (st\<lparr>replaced := replaced st @ [(nodeId n, highlightFragmentOf ?P n)],
                          processedNodes := insert (nodeId n) (processedNodes st)\<rparr>))"
  proof
    assume a: "[] \<notin> set ?ts \<and> (\<forall>n\<in>set nodes. parentNode st n \<noteq> None)"
    then have ne: "[] \<notin> set (alternatives ?P)" by (simp add: knownPattern_def)
    from a have att: "\<forall>n\<in>set nodes. parentNode st n \<noteq> None" by simp
    have "translateUnknownWords knownWords nodes st = walkTextNodes (practiceCallback ?P) nodes st"
      using assms A by (simp add: translateUnknownWords_def)
    with practice_walk[OF ne att]
    show "translateUnknownWords knownWords nodes st =
         (case find (\<lambda>n. acceptNode n = FILTER_ACCEPT \<and>
                          (nodeId n \<notin> processedNodes st \<and>
                           (\<exists>t\<in>set ?ts. \<exists>i. occursAt t (nodeText n) i))) nodes of
            None \<Rightarrow> Returns st
          | Some n \<Rightarrow>
              Returns (st\<lparr>replaced := replaced st @ [(nodeId n, highlightFragmentOf ?P n)],
                          processedNodes := insert (nodeId n) (processedNodes st)\<rparr>))"
      by (simp add: test_knownPattern)
  qed
  have E: "\<forall>ps c. getCompiledPatterns knownWords emptyCache = Inr (ps, c) \<longrightarrow>
       (\<forall>s. hasMatches ps s \<longleftrightarrow> (\<exists>w\<in>set (objectKeys knownWords). \<exists>i. occursAsWord w s i)) \<and>
       (\<forall>r s k i e. r \<in> set ps \<and> exec r s k = Some (i, e) \<longrightarrow>
          wordBoundary r \<and> ignoreCase r \<and>
          (\<exists>w\<in>set (objectKeys knownWords). e = i + length w \<and> occursAsWord w s i))"
  proof (intro allI impI)
    fix ps c assume g: "getCompiledPatterns knownWords emptyCache = Inr (ps, c)"
    then have ps: "ps = map learnPattern (chunksOf (sort (objectKeys knownWords)))"
      by (simp add: getCompiledPatterns_cases emptyCache_def)
    have h: "\<forall>s. hasMatches ps s \<longleftrightarrow> (\<exists>w\<in>set (objectKeys knownWords). \<exists>i. occursAsWord w s i)"
      unfolding ps by (simp add: hasMatches_learn)
    have x: "\<forall>r s k i e. r \<in> set ps \<and> exec r s k = Some (i, e) \<longrightarrow>
          wordBoundary r \<and> ignoreCase r \<and>
          (\<exists>w\<in>set (objectKeys knownWords). e = i + length w \<and> occursAsWord w s i)"
    proof (intro allI impI)
      fix r s k i e assume a: "r \<in> set ps \<and> exec r s k = Some (i, e)"
      with ps obtain chunk where chunk: "chunk \<in> set (chunksOf (sort (objectKeys knownWords)))"
        and r: "r = learnPattern chunk" by auto
      from chunk_subset[OF chunk] have sub: "set chunk \<subseteq> set (objectKeys knownWords)" by simp
      from a exec_alt[of r s k i e] obtain alt
        where alt: "alt \<in> set (alternatives r)" "e = i + length alt" "altMatches r s i alt"
          "wordBoundary r \<longrightarrow> atBoundary s i" by blast
      from r have f: "wordBoundary r" "ignoreCase r" "alternatives r = chunk"
        by (simp_all add: learnPattern_def)
      from alt f have "occursAsWord alt s i"
        by (simp add: altMatches_def sameUnits_def occursAsWord_def)
      moreover from alt(1) f sub have "alt \<in> set (objectKeys knownWords)" by auto
      ultimately show "wordBoundary r \<and> ignoreCase r \<and>
          (\<exists>w\<in>set (objectKeys knownWords). e = i + length w \<and> occursAsWord w s i)"
        using f alt(2) by blast
    qed
    from h x show "(\<forall>s. hasMatches ps s \<longleftrightarrow> (\<exists>w\<in>set (objectKeys knownWords). \<exists>i. occursAsWord w s i)) \<and>
       (\<forall>r s k i e. r \<in> set ps \<and> exec r s k = Some (i, e) \<longrightarrow>
          wordBoundary r \<and> ignoreCase r \<and>
          (\<exists>w\<in>set (objectKeys knownWords). e = i + length w \<and> occursAsWord w s i))" by blast
  qed
  from A B C D E show ?thesis by blast
qed

text \<open>
  The theorem at the one-entry vocabulary \<open>at\<close>, which is its own translation. In
  practice mode \<open>at\<close> is highlighted inside \<open>cat\<close> and nothing is highlighted in \<open>AT\<close>; in
  learn mode there is a match in \<open>AT\<close> and none in \<open>cat\<close>. The last example has a
  letter outside Basic Latin: the key \<open>naive\<close>, written with U+00EF for its \<open>i\<close>, matches
  its upper-case form, written with U+00CF.
\<close>

theorem practice_versus_learn_matching_witness:
  "practicePattern [(ascii ''at'', \<lparr>translation = ascii ''at'', pinyin = None\<rparr>)]
     = Inr (knownPattern [ascii ''at'']) \<and>
   translateUnknownWords [(ascii ''at'', \<lparr>translation = ascii ''at'', pinyin = None\<rparr>)]
       [textUnder 0 1 ''AT'', textUnder 0 2 ''cat''] freshState
     = Returns \<lparr>processedNodes = {2}, cache = emptyCache,
                replaced = [(2, [TextNode (ascii ''c''), ElementNode (knownSpan (ascii ''at''))])]\<rparr> \<and>
   hasMatches [learnPattern [ascii ''at'']] (ascii ''cat'') = False \<and>
   hasMatches [learnPattern [ascii ''at'']] (ascii ''AT'') = True \<and>
   exec (learnPattern [[0x6E, 0x61, 0xEF, 0x76, 0x65]]) [0x41, 0x20, 0x4E, 0x41, 0xCF, 0x56, 0x45] 0
     = Some (2, 7)"
proof -
  let ?kw = "[(ascii ''at'', \<lparr>translation = ascii ''at'', pinyin = None\<rparr>)]"
  have ne: "?kw \<noteq> []" by simp
  from practice_versus_learn_matching[OF ne]
  have "practicePattern ?kw = Inr (knownPattern (translationsOf ?kw))" by blast
  then have p: "practicePattern ?kw = Inr (knownPattern [ascii ''at''])"
    by (simp add: translationsOf_def)
  have a: "translateUnknownWords ?kw [textUnder 0 1 ''AT'', textUnder 0 2 ''cat''] freshState
     = Returns \<lparr>processedNodes = {2}, cache = emptyCache,
                replaced = [(2, [TextNode (ascii ''c''), ElementNode (knownSpan (ascii ''at''))])]\<rparr>"
    by code_simp
  have b: "hasMatches [learnPattern [ascii ''at'']] (ascii ''cat'') = False" by code_simp
  have c: "hasMatches [learnPattern [ascii ''at'']] (ascii ''AT'') = True" by code_simp
  have d: "exec (learnPattern [[0x6E, 0x61, 0xEF, 0x76, 0x65]]) [0x41, 0x20, 0x4E, 0x41, 0xCF, 0x56, 0x45] 0
     = Some (2, 7)" by code_simp
  from p a b c d show ?thesis by blast
qed

section \<open>Claims about the mutation observer\<close>

lemma generated_spans:
  "generated (ElementNode (translatedSpan tips w d))"
  "generated (ElementNode (compoundSpan tips r ws))"
  "generated (TextNode t)"
  by (simp_all add: generated_def hasAttribute_def translatedSpan_def compoundSpan_def)

lemma appendTextBefore_generated:
  "list_all generated (fragment st) \<Longrightarrow> list_all generated (appendTextBefore text a st)"
  by (simp add: appendTextBefore_def generated_spans)

lemma compoundStep_generated:
  "list_all generated (fragment st) \<Longrightarrow> list_all generated (fragment (compoundStep kw tips text ums k st))"
  by (auto simp: compoundStep_def Let_def generated_spans appendTextBefore_generated split: option.splits)

lemma plainStep_generated:
  "list_all generated (fragment st) \<Longrightarrow> list_all generated (fragment (plainStep kw tips text m st))"
  by (auto simp: plainStep_def Let_def generated_spans appendTextBefore_generated split: option.splits)

lemma fold_preserves:
  assumes "P s" and "\<And>x s. P s \<Longrightarrow> P (f x s)"
  shows "P (fold f xs s)"
  using assms(1) by (induction xs arbitrary: s) (simp_all add: assms(2))

lemma buildFragment_generated:
  assumes "buildFragment kw tips hfc text patterns = Some frag"
  shows "list_all generated frag"
proof -
  from assms obtain ums where f: "frag = addRemainingText text (runLoop kw tips hfc text ums)"
    by (auto simp: buildFragment_def split: option.splits)
  have "list_all generated (fragment (runLoop kw tips hfc text ums))"
    unfolding runLoop_def
    by (auto intro!: fold_preserves[where P = "\<lambda>s. list_all generated (fragment s)"]
             simp: initialLoopState_def compoundStep_generated plainStep_generated)
  then show ?thesis by (simp add: f addRemainingText_def generated_spans)
qed

lemma skippedByAncestor_member:
  assumes "e \<in> set anc" "hasAttribute e ''data-translated''"
  shows "skippedByAncestor anc"
  using assms by (induction anc) (auto simp: SKIP_ATTRIBUTES_def)

lemma walk_all_rejected:
  assumes "\<forall>n\<in>set nodes. acceptNode n = FILTER_REJECT"
  shows "walkTextNodes callback nodes st = Returns st"
  using assms by (induction nodes) simp_all

lemma processSubtree_inside_generated:
  assumes "hasAttribute e ''data-translated''" "\<forall>n\<in>set subtree. e \<in> set (ancestors n)"
  shows "\<exists>st'. processSubtree kw settings hfc mode subtree st = Returns st' \<and>
           replaced st' = replaced st \<and> processedNodes st' = processedNodes st"
proof -
  have rej: "\<forall>n\<in>set subtree. acceptNode n = FILTER_REJECT"
    using assms skippedByAncestor_member by (auto simp: acceptNode_def)
  obtain ps c where g: "getCompiledPatterns kw (cache st) = Inr (ps, c)"
    using getCompiledPatterns_returns[of kw "cache st"] by blast
  show ?thesis
    using g walk_all_rejected[OF rej, of "learnCallback kw settings hfc ps" "st\<lparr>cache := c\<rparr>"]
    by (simp add: processSubtree_def)
qed

lemma setAdd_set: "set (setAdd s x) = insert x (set s)"
  by (auto simp: setAdd_def)

lemma collect_added_subset:
  "set (fold (\<lambda>node roots. if nodeType node = ELEMENT_NODE \<and> addedId node \<notin> processed
                             then setAdd roots (addedId node) else roots) added roots)
     = set roots \<union> addedId ` {n \<in> set added. nodeType n = ELEMENT_NODE \<and> addedId n \<notin> processed}"
  by (induction added arbitrary: roots) (auto simp: setAdd_set)

lemma collectMutatedRoots_single:
  "set (collectMutatedRoots processed [m])
     = (if mutationType m = ''childList''
        then addedId ` {n \<in> set (addedNodes m). nodeType n = ELEMENT_NODE \<and> addedId n \<notin> processed}
        else {})"
  by (auto simp: collectMutatedRoots_def collect_added_subset)

lemma fragmentMutation_roots:
  assumes "root \<in> set (collectMutatedRoots processed [fragmentMutation ids frag])"
  shows "\<exists>k e. k < length frag \<and> k < length ids \<and> root = ids ! k \<and> frag ! k = ElementNode e"
proof -
  from assms obtain a where a: "a \<in> set (addedNodes (fragmentMutation ids frag))"
    and t: "nodeType a = ELEMENT_NODE" and r: "root = addedId a"
    by (auto simp: collectMutatedRoots_single fragmentMutation_def split: if_splits)
  from a obtain k where k: "k < length (zip ids frag)"
    and ak: "a = (\<lambda>(i, n). \<lparr>addedId = i,
                       nodeType = (case n of TextNode t \<Rightarrow> TEXT_NODE | ElementNode e \<Rightarrow> ELEMENT_NODE)\<rparr>)
                 (zip ids frag ! k)"
    by (auto simp: fragmentMutation_def in_set_conv_nth)
  from k have kk: "k < length ids" "k < length frag" by simp_all
  with ak have a': "addedId a = ids ! k"
    "nodeType a = (case frag ! k of TextNode t \<Rightarrow> TEXT_NODE | ElementNode e \<Rightarrow> ELEMENT_NODE)"
    by simp_all
  with t obtain e where "frag ! k = ElementNode e"
    by (cases "frag ! k") (simp_all add: TEXT_NODE_def ELEMENT_NODE_def)
  with kk a' r show ?thesis by blast
qed

lemma processRoots_inside_generated:
  assumes "\<forall>root\<in>set roots. \<exists>e. hasAttribute e ''data-translated'' \<and>
             (\<forall>doc. \<forall>n\<in>set (textNodesUnder doc root). e \<in> set (ancestors n))"
  shows "\<exists>st'. processRoots kw settings hfc mode textNodesUnder roots st = Returns st' \<and>
           replaced (content st') = replaced (content st) \<and>
           processedNodes (content st') = processedNodes (content st) \<and>
           pendingTimeout st' = pendingTimeout st"
  using assms
proof (induction roots arbitrary: st)
  case Nil
  show ?case by simp
next
  case (Cons root roots)
  then obtain e where e: "hasAttribute e ''data-translated''"
    "\<forall>n\<in>set (textNodesUnder (content st) root). e \<in> set (ancestors n)" by auto
  from processSubtree_inside_generated[OF e, of kw settings hfc mode "content st"]
  obtain c where c: "processSubtree kw settings hfc mode (textNodesUnder (content st) root) (content st) = Returns c"
    "replaced c = replaced (content st)" "processedNodes c = processedNodes (content st)" by blast
  let ?st1 = "st\<lparr>content := c, subtreeCalls := subtreeCalls st @ [root]\<rparr>"
  from Cons.prems have "\<forall>root\<in>set roots. \<exists>e. hasAttribute e ''data-translated'' \<and>
             (\<forall>doc. \<forall>n\<in>set (textNodesUnder doc root). e \<in> set (ancestors n))" by simp
  from Cons.IH[OF this, of ?st1] c show ?case by simp
qed

lemma processRoots_other_mode:
  assumes "mode \<noteq> ''learn''"
  shows "\<exists>st'. processRoots kw settings hfc mode textNodesUnder roots st = Returns st' \<and>
           content st' = content st \<and> pendingTimeout st' = pendingTimeout st"
proof (induction roots arbitrary: st)
  case Nil
  show ?case by simp
next
  case (Cons root roots)
  have "processSubtree kw settings hfc mode (textNodesUnder (content st) root) (content st) = Returns (content st)"
    using assms by (simp add: processSubtree_def)
  with Cons[of "st\<lparr>content := content st, subtreeCalls := subtreeCalls st @ [root]\<rparr>"]
  show ?case by simp
qed

text \<open>
  Claim C5, as amended. Take the fragment that \<open>replaceTextNode\<close> has put in the place of
  a text node, and the record the observer receives for it. The roots the callback
  collects from it are generated elements, each carrying \<open>data-translated\<close>; the text
  nodes of the fragment are not roots. When the timer fires, \<open>processSubtree\<close> on these
  roots replaces nothing and marks nothing, in whatever mode: the filter rejects every
  text node under an element that carries \<open>data-translated\<close>. So the replacement causes
  no further replacement and no further record. The units of \<open>highlightKnownWords\<close>
  carry \<open>data-known\<close> instead, which the filter does not look for; what keeps the timer
  from rewriting them is the mode: in a mode other than \<open>learn\<close> the function of the
  timer replaces nothing whatever the records were.
\<close>

theorem own_replacement_cycle_is_idle:
  assumes "buildFragment knownWords tips hasFindCompound originalText patterns = Some frag"
    and "pendingTimeout st = None"
    and "\<forall>k<length frag. \<forall>e. frag ! k = ElementNode e
            \<longrightarrow> (\<forall>doc. \<forall>n\<in>set (textNodesUnder doc (ids ! k)). e \<in> set (ancestors n))"
  shows "(\<forall>root\<in>set (collectMutatedRoots (processedNodes (content st)) [fragmentMutation ids frag]).
            \<exists>k e. k < length frag \<and> root = ids ! k \<and> frag ! k = ElementNode e \<and>
                  hasAttribute e ''data-translated'') \<and>
         (\<exists>st'. timeoutFires knownWords' settings' hasFindCompound' mode textNodesUnder
                   (observerCallback [fragmentMutation ids frag] st) = Returns st' \<and>
                 replaced (content st') = replaced (content st) \<and>
                 processedNodes (content st') = processedNodes (content st) \<and>
                 pendingTimeout st' = None) \<and>
         (\<forall>mutations. mode \<noteq> ''learn'' \<longrightarrow>
            (\<exists>st'. timeoutFires knownWords' settings' hasFindCompound' mode textNodesUnder
                     (observerCallback mutations st) = Returns st' \<and>
                   content st' = content st \<and> pendingTimeout st' = None)) \<and>
         (\<forall>matchedWord. \<not> skippedByAncestor [knownSpan matchedWord])"
proof -
  let ?roots = "collectMutatedRoots (processedNodes (content st)) [fragmentMutation ids frag]"
  have gen: "list_all generated frag" using assms(1) by (rule buildFragment_generated)
  have A: "\<forall>root\<in>set ?roots. \<exists>k e. k < length frag \<and> root = ids ! k \<and> frag ! k = ElementNode e \<and>
                  hasAttribute e ''data-translated''"
  proof
    fix root assume "root \<in> set ?roots"
    from fragmentMutation_roots[OF this] obtain k e
      where k: "k < length frag" "root = ids ! k" "frag ! k = ElementNode e" by blast
    from k(1) gen have "generated (frag ! k)" by (simp add: list_all_length)
    with k(3) have "hasAttribute e ''data-translated''" by (simp add: generated_def)
    with k show "\<exists>k e. k < length frag \<and> root = ids ! k \<and> frag ! k = ElementNode e \<and>
                  hasAttribute e ''data-translated''" by blast
  qed
  have B: "\<forall>root\<in>set ?roots. \<exists>e. hasAttribute e ''data-translated'' \<and>
             (\<forall>doc. \<forall>n\<in>set (textNodesUnder doc root). e \<in> set (ancestors n))"
  proof
    fix root assume "root \<in> set ?roots"
    with A obtain k e where k: "k < length frag" "root = ids ! k" "frag ! k = ElementNode e"
      "hasAttribute e ''data-translated''" by blast
    with assms(3) have "\<forall>doc. \<forall>n\<in>set (textNodesUnder doc root). e \<in> set (ancestors n)" by simp
    with k(4) show "\<exists>e. hasAttribute e ''data-translated'' \<and>
             (\<forall>doc. \<forall>n\<in>set (textNodesUnder doc root). e \<in> set (ancestors n))" by blast
  qed
  have C: "\<exists>st'. timeoutFires knownWords' settings' hasFindCompound' mode textNodesUnder
                   (observerCallback [fragmentMutation ids frag] st) = Returns st' \<and>
                 replaced (content st') = replaced (content st) \<and>
                 processedNodes (content st') = processedNodes (content st) \<and>
                 pendingTimeout st' = None"
  proof (cases "?roots = []")
    case True
    with assms(2) show ?thesis by (simp add: observerCallback_def timeoutFires_def)
  next
    case False
    from processRoots_inside_generated[OF B, of knownWords' settings' hasFindCompound' mode
        "st\<lparr>pendingTimeout := None\<rparr>"]
    show ?thesis using False by (simp add: observerCallback_def timeoutFires_def Let_def)
  qed
  have D: "\<forall>mutations. mode \<noteq> ''learn'' \<longrightarrow>
            (\<exists>st'. timeoutFires knownWords' settings' hasFindCompound' mode textNodesUnder
                     (observerCallback mutations st) = Returns st' \<and>
                   content st' = content st \<and> pendingTimeout st' = None)"
  proof (intro allI impI)
    fix mutations assume m: "mode \<noteq> ''learn''"
    let ?r = "collectMutatedRoots (processedNodes (content st)) mutations"
    show "\<exists>st'. timeoutFires knownWords' settings' hasFindCompound' mode textNodesUnder
                     (observerCallback mutations st) = Returns st' \<and>
                   content st' = content st \<and> pendingTimeout st' = None"
    proof (cases "?r = []")
      case True
      with assms(2) show ?thesis by (simp add: observerCallback_def timeoutFires_def)
    next
      case False
      from processRoots_other_mode[OF m, of knownWords' settings' hasFindCompound' textNodesUnder
          ?r "st\<lparr>pendingTimeout := None\<rparr>"]
      show ?thesis using False by (simp add: observerCallback_def timeoutFires_def Let_def)
    qed
  qed
  have E: "\<forall>matchedWord. \<not> skippedByAncestor [knownSpan matchedWord]"
    by (simp add: knownSpan_def SKIP_TAGS_def SKIP_ATTRIBUTES_def hasAttribute_def)
  from A C D E show ?thesis by blast
qed

text \<open>
  The claim as stated fails for the replacements of practice mode. The vocabulary has
  the word \<open>taxi\<close>, which is its own translation. \<open>translateUnknownWords\<close> highlights it in
  \<open>a taxi here\<close>; the observer receives the record of that replacement; and when the
  timer finds the mode \<open>learn\<close>, \<open>processSubtree\<close> on the new unit replaces the text node
  inside it.
\<close>

theorem own_replacement_cycle_is_idle_counterexample:
  "translateUnknownWords taxiWords [textUnder 0 2 ''a taxi here''] freshState
     = Returns (content afterHighlight) \<and>
   timeoutFires taxiWords settingsOn True ''learn'' insideKnown
     (observerCallback [fragmentMutation [9, 10, 11] taxiFragment] afterHighlight)
     = Returns
         \<lparr>content =
            \<lparr>processedNodes = {2, 100},
             cache = \<lparr>cachedPatterns = Some [learnPattern [ascii ''taxi'']],
                      cachedKnownWordsHash = Some (ascii ''taxi'')\<rparr>,
             replaced =
               [(2, taxiFragment),
                (100, [ElementNode (translatedSpan False (ascii ''taxi'')
                                      (Own \<lparr>translation = ascii ''taxi'', pinyin = None\<rparr>))])]\<rparr>,
          pendingTimeout = None,
          subtreeCalls = [10]\<rparr>"
  by code_simp

theorem own_replacement_cycle_is_idle_witness:
  "buildFragment helloWords False True (ascii ''hello there'') [learnPattern [ascii ''hello'']]
     = Some [ElementNode (helloSpan ''hello''), TextNode (ascii '' there'')] \<and>
   collectMutatedRoots (processedNodes (content afterRewrite))
     [fragmentMutation [10, 11] [ElementNode (helloSpan ''hello''), TextNode (ascii '' there'')]] = [10] \<and>
   timeoutFires helloWords settingsOn True ''learn'' insideSpan
     (observerCallback
        [fragmentMutation [10, 11] [ElementNode (helloSpan ''hello''), TextNode (ascii '' there'')]]
        afterRewrite)
     = Returns (afterRewrite\<lparr>subtreeCalls := [10]\<rparr>)"
proof -
  let ?frag = "[ElementNode (helloSpan ''hello''), TextNode (ascii '' there'')]"
  let ?fired = "timeoutFires helloWords settingsOn True ''learn'' insideSpan
     (observerCallback [fragmentMutation [10, 11] ?frag] afterRewrite)"
  have f: "buildFragment helloWords False True (ascii ''hello there'') [learnPattern [ascii ''hello'']]
     = Some ?frag" by code_simp
  have p: "pendingTimeout afterRewrite = None" by (simp add: afterRewrite_def)
  have u: "\<forall>k<length ?frag. \<forall>e. ?frag ! k = ElementNode e
            \<longrightarrow> (\<forall>doc. \<forall>n\<in>set (insideSpan doc ([10, 11] ! k)). e \<in> set (ancestors n))"
    by (simp add: insideSpan_def less_Suc_eq)
  have r: "collectMutatedRoots (processedNodes (content afterRewrite)) [fragmentMutation [10, 11] ?frag] = [10]"
    by code_simp
  have e: "?fired = Returns (afterRewrite\<lparr>subtreeCalls := [10]\<rparr>)" by code_simp
  from own_replacement_cycle_is_idle[OF f p u, of helloWords settingsOn True "''learn''"]
  have "\<exists>st'. ?fired = Returns st' \<and> replaced (content st') = replaced (content afterRewrite)"
    by blast
  with f r e show ?thesis by simp
qed

text \<open>
  What a second callback does to a pending timer: when it collects a root, the pending
  batch is the batch of this callback alone, whatever the earlier callback had collected.
\<close>

lemma observerCallback_replaces_pending:
  assumes "collectMutatedRoots (processedNodes (content st)) later \<noteq> []"
  shows "pendingTimeout (observerCallback later (observerCallback earlier st))
           = Some (collectMutatedRoots (processedNodes (content st)) later)"
proof -
  have "content (observerCallback earlier st) = content st"
    by (simp add: observerCallback_def Let_def)
  with assms show ?thesis by (simp add: observerCallback_def Let_def)
qed

text \<open>
  Claim C3 fails on the code. The set \<open>mutatedRoots\<close> is created inside the observer's
  callback, and the function of the timer captures the set of its own call only. A
  callback that arrives while a timer is pending clears that timer, and the roots that
  the cleared timer had captured are never handed to \<open>processSubtree\<close>. Here an element
  10 is added, then an element 20 before the timer fires: only 20 is processed, and the
  text under 10 stays as it was.
\<close>

theorem debounce_drops_earlier_batch:
  "pendingTimeout (observerCallback [elementAdded 10] idleObserver) = Some [10] \<and>
   pendingTimeout (observerCallback [elementAdded 20] (observerCallback [elementAdded 10] idleObserver))
     = Some [20] \<and>
   timeoutFires helloWords settingsOn True ''learn'' twoDivs
     (observerCallback [elementAdded 20] (observerCallback [elementAdded 10] idleObserver))
     = Returns
         \<lparr>content =
            \<lparr>processedNodes = {21}, cache = helloCache,
             replaced = [(21, [ElementNode (helloSpan ''hello''), TextNode (ascii '' from the second'')])]\<rparr>,
          pendingTimeout = None,
          subtreeCalls = [20]\<rparr>"
  by code_simp

end
